theory Spec2Isabelle
  imports Main "HOL-Library.Sublist"
begin

section \<open>Lua templates: escape tables, directive scanner, compilation and rendering\<close>

text \<open>
  The development follows the C sources of the template library: \<^verbatim>\<open>reader.c\<close> (the
  escape tables, \<^verbatim>\<open>lt_escape\<close>, \<^verbatim>\<open>process_file\<close> and \<^verbatim>\<open>reader\<close>) and
  \<^verbatim>\<open>luatemplate.c\<close> (the Lua helpers \<^verbatim>\<open>render_block\<close> and \<^verbatim>\<open>render_template\<close>, and
  the host functions \<^verbatim>\<open>template_context\<close>, \<^verbatim>\<open>render_file\<close>, \<^verbatim>\<open>render_debug\<close>,
  \<^verbatim>\<open>render_clear\<close>). The library is built without \<^verbatim>\<open>LT_DEBUG\<close> (the makefile does not
  define it), so the line bookkeeping under that macro is not part of the model.
\<close>

subsection \<open>Characters that cannot stand in a string literal\<close>

abbreviation (input) sq :: char where "sq \<equiv> CHR 0x27"
abbreviation (input) dq :: char where "dq \<equiv> CHR 0x22"
abbreviation (input) bsl :: char where "bsl \<equiv> CHR 0x5C"
abbreviation (input) nl :: char where "nl \<equiv> CHR 0x0A"
abbreviation (input) btick :: char where "btick \<equiv> CHR 0x60"
abbreviation (input) NUL :: char where "NUL \<equiv> CHR 0x00"

subsection \<open>Escape tables and \<^verbatim>\<open>lt_escape\<close>\<close>

text \<open>\<^verbatim>\<open>enum lt_escapes\<close> of \<^verbatim>\<open>luatemplate.h\<close>.\<close>

datatype lt_escapes = e_none | e_html | e_xml | e_latex | e_url

text \<open>
  \<^verbatim>\<open>struct lt_escape_entity { char c; const char *escape; }\<close>: a table is the list of its
  entries before the terminating \<^verbatim>\<open>{ '\0', NULL }\<close>, in the order of the source.
\<close>

type_synonym lt_escape_entity = "char \<times> string"

definition html_escape :: "lt_escape_entity list" where
  "html_escape =
    [(CHR ''&'', ''&amp;''),
     (CHR ''<'', ''&lt;''),
     (CHR ''>'', ''&gt;''),
     (dq, ''&#034;''),
     (sq, ''&#039;'')]"

definition xml_escape :: "lt_escape_entity list" where
  "xml_escape =
    [(CHR ''&'', ''&amp;''),
     (CHR ''<'', ''&lt;''),
     (CHR ''>'', ''&gt;''),
     (dq, ''&quot;''),
     (sq, ''&apos;'')]"

definition latex_escape :: "lt_escape_entity list" where
  "latex_escape =
    [(CHR ''&'', [bsl, CHR ''&'']),
     (CHR ''$'', [bsl, CHR ''$'']),
     (bsl, ''$'' @ [bsl] @ ''backslash$''),
     (CHR ''_'', [bsl, CHR ''_'']),
     (CHR ''<'', ''$<$''),
     (CHR ''>'', ''$>$''),
     (CHR ''%'', [bsl, CHR ''%'']),
     (CHR ''#'', [bsl, CHR ''#'']),
     (CHR ''^'', ''$^$'')]"

definition url_escape :: "lt_escape_entity list" where
  "url_escape =
    [(CHR '' '', ''%20''),
     (CHR ''<'', ''%3C''),
     (CHR ''>'', ''%3E''),
     (CHR ''#'', ''%23''),
     (CHR ''%'', ''%25''),
     (CHR ''{'', ''%7B''),
     (CHR ''}'', ''%7D''),
     (CHR ''|'', ''%7C''),
     (bsl, ''%5C''),
     (CHR ''^'', ''%5E''),
     (CHR ''~'', ''%7E''),
     (CHR ''['', ''%5B''),
     (CHR '']'', ''%5D''),
     (btick, ''%60''),
     (CHR '';'', ''%3B''),
     (CHR ''/'', ''%2F''),
     (CHR ''?'', ''%3F''),
     (CHR '':'', ''%3A''),
     (CHR ''@'', ''%40''),
     (CHR ''='', ''%3D''),
     (CHR ''&'', ''%26''),
     (CHR ''$'', ''%24'')]"

text \<open>
  The loop \<^verbatim>\<open>for (; esc->escape != NULL; esc++) if (esc->c == c) break; return esc->escape;\<close>:
  the first entry whose character is \<open>c\<close>, and \<^verbatim>\<open>NULL\<close> (here \<open>None\<close>) when the
  terminator is reached.
\<close>

fun esc_scan :: "lt_escape_entity list \<Rightarrow> char \<Rightarrow> string option" where
  "esc_scan [] c = None"
| "esc_scan (e # esc) c = (if fst e = c then Some (snd e) else esc_scan esc c)"

definition lt_escape :: "lt_escapes \<Rightarrow> char \<Rightarrow> string option" where
  "lt_escape escape c =
    (case escape of
       e_html \<Rightarrow> esc_scan html_escape c
     | e_xml \<Rightarrow> esc_scan xml_escape c
     | e_url \<Rightarrow> esc_scan url_escape c
     | e_latex \<Rightarrow> esc_scan latex_escape c
     | e_none \<Rightarrow> None)"

subsection \<open>The substitutions as the specification words them\<close>

text \<open>
  A second reading of the tables, written from the specification and not from the
  code: the html and xml entities, the LaTeX commands, and for url the rule
  ``space and the reserved set go to \<^verbatim>\<open>%XX\<close>'', with \<^verbatim>\<open>XX\<close> computed as the two
  upper-case hexadecimal digits of the character code.
\<close>

definition hexdigit :: "nat \<Rightarrow> char" where
  "hexdigit d = ''0123456789ABCDEF'' ! d"

definition percent_XX :: "char \<Rightarrow> string" where
  "percent_XX c = [CHR ''%'', hexdigit (of_char c div 16), hexdigit (of_char c mod 16)]"

definition url_reserved :: "char list" where
  "url_reserved = ''<>#%{}|'' @ [bsl] @ ''^~[]'' @ [btick] @ '';/?:@=&$''"

definition spec_html :: "char \<Rightarrow> string option" where
  "spec_html c =
    (if c = CHR ''&'' then Some ''&amp;''
     else if c = CHR ''<'' then Some ''&lt;''
     else if c = CHR ''>'' then Some ''&gt;''
     else if c = dq then Some ''&#034;''
     else if c = sq then Some ''&#039;''
     else None)"

definition spec_xml :: "char \<Rightarrow> string option" where
  "spec_xml c =
    (if c = dq then Some ''&quot;''
     else if c = sq then Some ''&apos;''
     else spec_html c)"

definition spec_latex :: "char \<Rightarrow> string option" where
  "spec_latex c =
    (if c = CHR ''&'' then Some (bsl # ''&'')
     else if c = CHR ''$'' then Some (bsl # ''$'')
     else if c = bsl then Some (''$'' @ bsl # ''backslash$'')
     else if c = CHR ''_'' then Some (bsl # ''_'')
     else if c = CHR ''<'' then Some ''$<$''
     else if c = CHR ''>'' then Some ''$>$''
     else if c = CHR ''%'' then Some (bsl # ''%'')
     else if c = CHR ''#'' then Some (bsl # ''#'')
     else if c = CHR ''^'' then Some ''$^$''
     else None)"

definition spec_url :: "char \<Rightarrow> string option" where
  "spec_url c =
    (if c = CHR '' '' \<or> c \<in> set url_reserved then Some (percent_XX c) else None)"

definition spec_escape :: "lt_escapes \<Rightarrow> char \<Rightarrow> string option" where
  "spec_escape mode c =
    (case mode of
       e_none \<Rightarrow> None
     | e_html \<Rightarrow> spec_html c
     | e_xml \<Rightarrow> spec_xml c
     | e_latex \<Rightarrow> spec_latex c
     | e_url \<Rightarrow> spec_url c)"

subsection \<open>C strings\<close>

text \<open>
  The template text is read through the pointer \<^verbatim>\<open>p\<close> into the mapping of the file:
  the model keeps the bytes of the file from \<^verbatim>\<open>p\<close> on. Nothing but the mapping ends the
  text: the bytes of the file are followed by zero bytes up to the end of the last page,
  if the file does not fill it. \<^verbatim>\<open>*p\<close> at or after the end of the file reads as the
  zero byte that stands there when the mapping reaches that far; how far \<^verbatim>\<open>p\<close> has
  moved past the end of the file is counted in the scanner state, and \<^verbatim>\<open>process_file\<close>
  below compares it with the size of the mapping.
\<close>

definition cur :: "string \<Rightarrow> char" where
  "cur p = (case p of [] \<Rightarrow> NUL | c # _ \<Rightarrow> c)"

text \<open>\<^verbatim>\<open>!strncmp(p, lit, strlen(lit))\<close> for a literal without NUL.\<close>

definition starts :: "string \<Rightarrow> string \<Rightarrow> bool" where
  "starts lit p = (take (length lit) p = lit)"

text \<open>\<^verbatim>\<open>isspace\<close> in the C locale: space, \<^verbatim>\<open>\t \n \v \f \r\<close>.\<close>

definition isspace :: "char \<Rightarrow> bool" where
  "isspace c = (c = CHR '' '' \<or> c = CHR 0x09 \<or> c = CHR 0x0A \<or> c = CHR 0x0B
                \<or> c = CHR 0x0C \<or> c = CHR 0x0D)"

subsection \<open>The scanner state\<close>

text \<open>\<^verbatim>\<open>enum lt_states\<close> of \<^verbatim>\<open>reader.c\<close>.\<close>

datatype lt_states =
  s_startup | s_initial | s_output | s_code | s_expression | s_instruction
  | s_terminate | s_error

text \<open>The buffer that \<^verbatim>\<open>struct buffer *b\<close> points to: \<^verbatim>\<open>&body\<close> or \<^verbatim>\<open>&blocks\<close>.\<close>

datatype buf_sel = b_body | b_blocks

text \<open>
  The local variables of \<^verbatim>\<open>reader\<close>, and the list \<^verbatim>\<open>includes\<close> it fills for its
  caller. \<^verbatim>\<open>cb\<close> counts parentheses to close and is never negative. \<^verbatim>\<open>fnam\<close> is
  written by \<^verbatim>\<open>include\<close>, \<^verbatim>\<open>block\<close> and \<^verbatim>\<open>extends\<close> and read by them and by
  \<^verbatim>\<open>endblock\<close>. The C array is not initialised: \<open>r_unset\<close> says that nothing has been
  written to it yet.

  Two more fields record where the scan leaves the objects it reads. \<open>r_past\<close> is the
  number of bytes by which \<^verbatim>\<open>p\<close> stands past the end of the file. \<open>r_undef\<close> is set once
  \<^verbatim>\<open>fnam\<close> has been read as a string where it holds none: before anything was written
  to it, or after a name has filled all of it, so that the array holds no terminating
  NUL and \<^verbatim>\<open>buf_addstring(b, fnam)\<close>, \<^verbatim>\<open>strcmp\<close> and \<^verbatim>\<open>strdup\<close> read past its end.
\<close>

record reader_st =
  r_p :: string
  r_state :: lt_states
  r_escape :: lt_escapes
  r_extends :: bool
  r_block :: bool
  r_output :: bool
  r_cb :: nat
  r_fnam :: string
  r_b :: buf_sel
  r_body :: string
  r_blocks :: string
  r_includes :: "string list"
  r_past :: nat
  r_unset :: bool
  r_undef :: bool

text \<open>
  Modelled from the spec: \<^verbatim>\<open>buffer.h\<close> (\<^verbatim>\<open>buf_init\<close>, \<^verbatim>\<open>buf_addstring\<close>,
  \<^verbatim>\<open>buf_addchar\<close>, \<^verbatim>\<open>buf_push\<close>, \<^verbatim>\<open>buf_free\<close>) is not among the sources. The
  specification has the scanner produce two code buffers; a buffer is the text appended
  to it so far, and \<^verbatim>\<open>buf_push\<close> hands that text to the engine.
\<close>

definition buf_addstring :: "buf_sel \<Rightarrow> string \<Rightarrow> reader_st \<Rightarrow> reader_st" where
  "buf_addstring b s r =
    (case b of
       b_body \<Rightarrow> r\<lparr>r_body := r_body r @ s\<rparr>
     | b_blocks \<Rightarrow> r\<lparr>r_blocks := r_blocks r @ s\<rparr>)"

definition buf_addchar :: "buf_sel \<Rightarrow> char \<Rightarrow> reader_st \<Rightarrow> reader_st" where
  "buf_addchar b c r = buf_addstring b [c] r"

text \<open>
  Modelled from the spec: \<^verbatim>\<open>MAXPATHLEN\<close> comes from the system header
  \<^verbatim>\<open>sys/param.h\<close>, which is not among the sources; 4096 is its value on Linux, the
  platform of the makefile. It bounds the length of a name read into \<^verbatim>\<open>fnam\<close>.
\<close>

definition MAXPATHLEN :: nat where
  "MAXPATHLEN = 4096"

text \<open>
  \<^verbatim>\<open>p++\<close>. At the end of the file there is no byte of the file to step over: the
  pointer moves on into what follows the file, and \<open>r_past\<close> counts the step.
\<close>

definition next_char :: "reader_st \<Rightarrow> reader_st" where
  "next_char r =
    r\<lparr>r_p := tl (r_p r), r_past := (if r_p r = [] then Suc (r_past r) else r_past r)\<rparr>"

text \<open>
  The loops that read a name stop at \<^verbatim>\<open>n == sizeof fnam\<close>; a name of that length has
  overwritten the last zero that \<^verbatim>\<open>bzero\<close> left in the array.
\<close>

definition fills_fnam :: "string \<Rightarrow> bool" where
  "fills_fnam name = (MAXPATHLEN \<le> length name)"

subsection \<open>Names of \<^verbatim>\<open>include\<close>, \<^verbatim>\<open>block\<close> and \<^verbatim>\<open>extends\<close>\<close>

text \<open>
  \<^verbatim>\<open>while (*p && *p != '"' && *p != '\'' && n < sizeof fnam) fnam[n++] = *p++;\<close>
  The result is the name read and the rest of the text; the closing quote is not consumed.
\<close>

fun scan_quoted :: "nat \<Rightarrow> string \<Rightarrow> string \<times> string" where
  "scan_quoted n [] = ([], [])"
| "scan_quoted n (c # cs) =
    (if c \<noteq> NUL \<and> c \<noteq> dq \<and> c \<noteq> sq \<and> n < MAXPATHLEN
     then (case scan_quoted (Suc n) cs of (nm, rest) \<Rightarrow> (c # nm, rest))
     else ([], c # cs))"

text \<open>
  \<^verbatim>\<open>while (*p && !isspace((int)*p) && !(*p == '%' && *(p + 1) == '>') && n < sizeof fnam)
      fnam[n++] = *p++;\<close>
\<close>

fun scan_bare :: "nat \<Rightarrow> string \<Rightarrow> string \<times> string" where
  "scan_bare n [] = ([], [])"
| "scan_bare n (c # cs) =
    (if c \<noteq> NUL \<and> \<not> isspace c \<and> \<not> (c = CHR ''%'' \<and> cur cs = CHR ''>'') \<and> n < MAXPATHLEN
     then (case scan_bare (Suc n) cs of (nm, rest) \<Rightarrow> (c # nm, rest))
     else ([], c # cs))"

text \<open>
  The common part of the three directives, after \<^verbatim>\<open>p\<close> has passed the keyword:
  \<^verbatim>\<open>bzero(fnam); n = 0; while (isspace(*p)) p++;\<close> and then the quoted or the bare scan.
\<close>

definition scan_name :: "string \<Rightarrow> string \<times> string" where
  "scan_name p0 =
    (let p = dropWhile isspace p0
     in if cur p = dq \<or> cur p = sq then scan_quoted 0 (tl p) else scan_bare 0 p)"

text \<open>
  \<^verbatim>\<open>SLIST_FOREACH(include, includes, next) if (!strcmp(include->fnam, fnam)) ...\<close> and
  \<^verbatim>\<open>SLIST_INSERT_HEAD\<close> when the name is not in the list yet: the newest name comes first.
\<close>

definition add_include :: "string \<Rightarrow> string list \<Rightarrow> string list" where
  "add_include f incs = (if f \<in> set incs then incs else f # incs)"

subsection \<open>One iteration of the scanner's loop\<close>

text \<open>\<^verbatim>\<open>case s_code\<close>.\<close>

definition step_code :: "reader_st \<Rightarrow> reader_st" where
  "step_code r =
    (if \<not> starts ''%>'' (r_p r)
     then next_char (buf_addchar (r_b r) (cur (r_p r)) r)
     else (buf_addstring (r_b r) [nl] r)\<lparr>r_state := s_initial, r_p := drop 2 (r_p r)\<rparr>)"

text \<open>\<^verbatim>\<open>case s_expression\<close>: at \<^verbatim>\<open>%>\<close> the \<^verbatim>\<open>cb\<close> open parentheses are closed.\<close>

definition step_expression :: "reader_st \<Rightarrow> reader_st" where
  "step_expression r =
    (if \<not> starts ''%>'' (r_p r)
     then next_char (buf_addchar (r_b r) (cur (r_p r)) r)
     else (buf_addstring (r_b r) (replicate (r_cb r) CHR '')'' @ CHR '')'' # [nl]) r)
            \<lparr>r_state := s_initial, r_cb := 0, r_p := drop 2 (r_p r)\<rparr>)"

text \<open>
  The start of an expression, after \<^verbatim>\<open><%=\<close>: the optional mode tag must stand right at
  \<^verbatim>\<open>p\<close>; then the opening of the print call, and the format specifier when the text
  starts with \<^verbatim>\<open>%\<close>.
\<close>

definition mode_tag :: "lt_escapes \<Rightarrow> string \<Rightarrow> lt_escapes \<times> string" where
  "mode_tag escape p =
    (if starts ''html'' p then (e_html, drop 4 p)
     else if starts ''xml'' p then (e_xml, drop 3 p)
     else if starts ''latex'' p then (e_latex, drop 5 p)
     else if starts ''url'' p then (e_url, drop 3 p)
     else if starts ''none'' p then (e_none, drop 4 p)
     else (escape, p))"

definition open_print :: "lt_escapes \<Rightarrow> reader_st \<Rightarrow> reader_st" where
  "open_print escape_temp r =
    (case escape_temp of
       e_html \<Rightarrow> (buf_addstring (r_b r) ''print(escape_html('' r)\<lparr>r_cb := r_cb r + 1\<rparr>
     | e_xml \<Rightarrow> (buf_addstring (r_b r) ''print(escape_xml('' r)\<lparr>r_cb := r_cb r + 1\<rparr>
     | e_url \<Rightarrow> (buf_addstring (r_b r) ''print(escape_url('' r)\<lparr>r_cb := r_cb r + 1\<rparr>
     | e_latex \<Rightarrow> (buf_addstring (r_b r) ''print(escape_latex('' r)\<lparr>r_cb := r_cb r + 1\<rparr>
     | e_none \<Rightarrow> buf_addstring (r_b r) ''print('' r)"

definition open_format :: "reader_st \<Rightarrow> reader_st" where
  "open_format r =
    (if cur (r_p r) = CHR ''%''
     then (let fmt = takeWhile (\<lambda>c. c \<noteq> NUL \<and> \<not> isspace c) (r_p r)
           in (buf_addstring (r_b r) (''string.format([['' @ fmt @ '']], '') r)
                \<lparr>r_cb := r_cb r + 1, r_p := drop (length fmt) (r_p r)\<rparr>)
     else r)"

definition open_expression :: "reader_st \<Rightarrow> reader_st" where
  "open_expression r =
    (case mode_tag (r_escape r) (tl (r_p r)) of
       (escape_temp, p') \<Rightarrow>
         open_format (open_print escape_temp (r\<lparr>r_state := s_expression, r_p := p'\<rparr>)))"

text \<open>
  \<^verbatim>\<open>case s_output\<close>: a character of literal text is copied; at \<^verbatim>\<open><%\<close> the pending
  literal is closed and the directive is opened. An expression or an instruction ends
  the iteration; raw code falls through into \<^verbatim>\<open>case s_code\<close> in the same iteration,
  also when the white space after \<^verbatim>\<open><%\<close> has led to the end of the file: \<^verbatim>\<open>case s_code\<close>
  then copies the zero byte it finds and steps over it.
\<close>

definition skip_space :: "reader_st \<Rightarrow> reader_st" where
  "skip_space r = r\<lparr>r_p := dropWhile isspace (r_p r)\<rparr>"

definition step_output :: "reader_st \<Rightarrow> reader_st" where
  "step_output r =
    (if \<not> starts ''<%'' (r_p r)
     then next_char (buf_addchar (r_b r) (cur (r_p r)) r)
     else
       (let r1 = (if r_output r
                  then (buf_addstring (r_b r) ('']])'' @ [nl]) r)\<lparr>r_output := False\<rparr>
                  else r);
            r2 = r1\<lparr>r_p := drop 2 (r_p r1)\<rparr>
        in if cur (r_p r2) = CHR ''=''
           then skip_space (open_expression r2)
           else if cur (r_p r2) = CHR ''!''
           then skip_space (r2\<lparr>r_state := s_instruction, r_p := tl (r_p r2)\<rparr>)
           else step_code (skip_space (r2\<lparr>r_state := s_code\<rparr>))))"

text \<open>\<^verbatim>\<open>case s_initial\<close>, which falls through into \<^verbatim>\<open>case s_output\<close>.\<close>

definition step_initial :: "reader_st \<Rightarrow> reader_st" where
  "step_initial r =
    step_output
      ((if \<not> starts ''<%'' (r_p r) \<and> (\<not> r_extends r \<or> (r_extends r \<and> r_block r))
        then (buf_addstring (r_b r) ''print([['' r)\<lparr>r_output := True\<rparr>
        else r)\<lparr>r_state := s_output\<rparr>)"

text \<open>The generated text names the template between single quotes.\<close>

definition tmpl :: "string \<Rightarrow> string" where
  "tmpl template = ''template['' @ [sq] @ template @ [sq] @ '']''"

definition blk_of :: "string \<Rightarrow> string \<Rightarrow> string" where
  "blk_of template name = tmpl template @ ''.blk['' @ [sq] @ name @ [sq] @ '']''"

text \<open>The branches of \<^verbatim>\<open>case s_instruction\<close>, in the order of the source.\<close>

definition instr_include :: "reader_st \<Rightarrow> reader_st" where
  "instr_include r =
    (case scan_name (drop 7 (r_p r)) of
       (name, p') \<Rightarrow>
         (buf_addstring (r_b r) (''render_template(_ENV, '' @ [sq] @ name @ [sq] @ '')'' @ [nl]) r)
           \<lparr>r_p := p', r_fnam := name, r_includes := add_include name (r_includes r),
             r_unset := False, r_undef := (r_undef r \<or> fills_fnam name)\<rparr>)"

definition instr_escape :: "reader_st \<Rightarrow> reader_st" where
  "instr_escape r =
    (let p = dropWhile isspace (drop 6 (r_p r))
     in if starts ''none'' p then r\<lparr>r_escape := e_none, r_p := drop 4 p\<rparr>
        else if starts ''html'' p then r\<lparr>r_escape := e_html, r_p := drop 4 p\<rparr>
        else if starts ''latex'' p then r\<lparr>r_escape := e_latex, r_p := drop 5 p\<rparr>
        else if starts ''url'' p then r\<lparr>r_escape := e_url, r_p := drop 3 p\<rparr>
        else r\<lparr>r_p := p\<rparr>)"

definition instr_block :: "string \<Rightarrow> reader_st \<Rightarrow> reader_st" where
  "instr_block template r =
    (case scan_name (drop 5 (r_p r)) of
       (name, p') \<Rightarrow>
         (let r1 = r\<lparr>r_p := p', r_fnam := name, r_b := b_blocks,
                        r_unset := False, r_undef := (r_undef r \<or> fills_fnam name)\<rparr>;
              r2 = (if \<not> r_extends r1
                    then buf_addstring (r_b r1)
                           (''if '' @ blk_of template name @ '' == nil then'' @ [nl]) r1
                    else r1)
          in (buf_addstring (r_b r2)
                (blk_of template name @ '' = function (_ENV)'' @ [nl]) r2)
               \<lparr>r_block := True\<rparr>))"

definition instr_endblock :: "reader_st \<Rightarrow> reader_st" where
  "instr_endblock r =
    (let r1 = r\<lparr>r_p := drop 8 (r_p r)\<rparr>;
         r2 = (if \<not> r_extends r1 then buf_addstring (r_b r1) (''end'' @ [nl]) r1 else r1);
         r3 = (buf_addstring (r_b r2) (''end'' @ [nl]) r2)\<lparr>r_b := b_body\<rparr>;
         r4 = (if \<not> r_extends r3
               then (buf_addstring (r_b r3)
                       (''render_block(_ENV, _t, '' @ [sq] @ r_fnam r3 @ [sq] @ '')'' @ [nl]) r3)
                      \<lparr>r_undef := (r_undef r3 \<or> r_unset r3)\<rparr>
               else r3)
     in r4\<lparr>r_block := False\<rparr>)"

definition instr_extends :: "string \<Rightarrow> reader_st \<Rightarrow> reader_st" where
  "instr_extends template r =
    (let r1 = (if \<not> r_extends r then buf_addstring (r_b r) (''end'' @ [nl]) r else r)
     in case scan_name (drop 7 (r_p r1)) of
          (name, p') \<Rightarrow>
            (buf_addstring (r_b r1)
               (tmpl template @ ''.main = nil'' @ [nl]
                @ tmpl template @ ''.extends = '' @ [sq] @ name @ [sq] @ [nl]) r1)
              \<lparr>r_p := p', r_fnam := name, r_extends := True,
                r_includes := add_include name (r_includes r1),
                r_unset := False, r_undef := (r_undef r1 \<or> fills_fnam name)\<rparr>)"

text \<open>
  After the directive: \<^verbatim>\<open>while (*p && strncmp(p, "%>", 2)) p++; if (*p) p += 2;\<close>
  The rest of the directive is skipped up to and including the next \<^verbatim>\<open>%>\<close>, or up to
  the end of the text when there is none.
\<close>

fun skip_directive :: "string \<Rightarrow> string" where
  "skip_directive [] = []"
| "skip_directive (c # cs) =
    (if c = NUL then c # cs
     else if starts ''%>'' (c # cs) then drop 2 (c # cs)
     else skip_directive cs)"

definition step_instruction :: "string \<Rightarrow> reader_st \<Rightarrow> reader_st" where
  "step_instruction template r =
    (let r1 = (if starts ''include'' (r_p r) then instr_include r
               else if starts ''escape'' (r_p r) then instr_escape r
               else if starts ''block'' (r_p r) then instr_block template r
               else if starts ''endblock'' (r_p r) then instr_endblock r
               else if starts ''extends'' (r_p r) then instr_extends template r
               else r)
     in r1\<lparr>r_p := skip_directive (r_p r1), r_state := s_initial\<rparr>)"

text \<open>
  The \<^verbatim>\<open>switch (state)\<close>. It has no case for \<^verbatim>\<open>s_startup\<close>, \<^verbatim>\<open>s_terminate\<close> and
  \<^verbatim>\<open>s_error\<close>: there an iteration changes nothing.
\<close>

definition reader_step :: "string \<Rightarrow> reader_st \<Rightarrow> reader_st" where
  "reader_step template r =
    (case r_state r of
       s_initial \<Rightarrow> step_initial r
     | s_output \<Rightarrow> step_output r
     | s_code \<Rightarrow> step_code r
     | s_expression \<Rightarrow> step_expression r
     | s_instruction \<Rightarrow> step_instruction template r
     | _ \<Rightarrow> r)"

subsection \<open>The scanner\<close>

text \<open>
  \<^verbatim>\<open>while (*p) { switch (state) ... }\<close>. The loop is written as it stands; \<open>None\<close> is
  a loop that never ends.
\<close>

partial_function (option) reader_loop :: "string \<Rightarrow> reader_st \<Rightarrow> reader_st option" where
  "reader_loop template r =
    (if cur (r_p r) = NUL then Some r else reader_loop template (reader_step template r))"

declare reader_loop.simps [code]

text \<open>The state before the loop: both buffers hold their fixed first lines.\<close>

definition body_header :: "string \<Rightarrow> string" where
  "body_header template =
    ''_ENV = ...'' @ [nl]
    @ tmpl template @ '' = { blk = {} }'' @ [nl]
    @ tmpl template @ ''.main = function(_ENV, _t)'' @ [nl]"

definition blocks_header :: string where
  "blocks_header = ''_ENV = ...'' @ [nl]"

definition reader_init :: "string \<Rightarrow> string \<Rightarrow> reader_st" where
  "reader_init p template =
    \<lparr>r_p = p, r_state = s_initial, r_escape = e_none, r_extends = False,
     r_block = False, r_output = False, r_cb = 0, r_fnam = [], r_b = b_body,
     r_body = body_header template, r_blocks = blocks_header, r_includes = [],
     r_past = 0, r_unset = True, r_undef = False\<rparr>"

text \<open>
  After the loop (\<^verbatim>\<open>if (*p == '\0') { ... }\<close>): a pending literal is closed, the final
  state is \<^verbatim>\<open>s_terminate\<close> or \<^verbatim>\<open>s_error\<close>, and the main routine is closed. The state is
  a local variable; \<^verbatim>\<open>reader\<close> has no \<^verbatim>\<open>return\<close> statement and pushes both buffers
  whatever the state is.
\<close>

definition reader_finish :: "reader_st \<Rightarrow> reader_st" where
  "reader_finish r =
    (let r1 = (if r_state r = s_output \<and> \<not> r_extends r
               then buf_addstring (r_b r) ('']])'' @ [nl]) r else r);
         r2 = r1\<lparr>r_state := (if r_state r1 = s_output \<or> r_state r1 = s_initial
                               then s_terminate else s_error)\<rparr>
     in if \<not> r_extends r2 then buf_addstring (r_b r2) (''end'' @ [nl]) r2 else r2)"

text \<open>
  \<^verbatim>\<open>reader(L, p, s, includes, template, print)\<close>. Of the result the caller sees the
  texts pushed (\<open>r_blocks\<close>, then \<open>r_body\<close> on top of it) and the list \<open>r_includes\<close>.
  The fields \<open>r_p\<close>, \<open>r_past\<close> and \<open>r_undef\<close> of the result tell whether the scan stayed
  inside the mapping and read \<^verbatim>\<open>fnam\<close> only where it held a string.
\<close>

definition reader :: "string \<Rightarrow> string \<Rightarrow> reader_st option" where
  "reader p template = map_option reader_finish (reader_loop template (reader_init p template))"

section \<open>The execution engine\<close>

text \<open>
  The generated text is loaded and run by Lua (\<^verbatim>\<open>luaL_loadbuffer\<close>, \<^verbatim>\<open>lua_pcall\<close>), which
  is not part of the library. What follows describes Lua on the fragment of the language
  that \<^verbatim>\<open>reader\<close> emits for templates made of literal text, expressions that are a
  single variable, and the directives \<^verbatim>\<open>include\<close>, \<^verbatim>\<open>block\<close>, \<^verbatim>\<open>endblock\<close>,
  \<^verbatim>\<open>extends\<close> and \<^verbatim>\<open>escape\<close>: one statement on a line, in the shapes the generator
  writes. A chunk outside the fragment (raw code, a compound expression, a format
  specifier, a name with a quote in it) is \<open>unsupported\<close>: the development says nothing
  about what Lua does with it.
\<close>

subsection \<open>Compiled templates\<close>

text \<open>
  The statements of a generated routine: \<^verbatim>\<open>print([[text]])\<close>;
  \<^verbatim>\<open>print(f(x))\<close> for a variable \<^verbatim>\<open>x\<close> under the escape helpers \<^verbatim>\<open>f\<close> (outermost first);
  \<^verbatim>\<open>render_template(_ENV, 'name')\<close>; \<^verbatim>\<open>render_block(_ENV, _t, 'name')\<close>.
\<close>

datatype stmt =
  PrintLit string
  | PrintExpr "string list" string
  | RenderTemplate string
  | RenderBlock string

type_synonym routine = "stmt list"

text \<open>
  An entry \<^verbatim>\<open>template[name]\<close> of the registry: the table \<^verbatim>\<open>blk\<close> and the fields
  \<^verbatim>\<open>main\<close>, \<^verbatim>\<open>extends\<close> and \<^verbatim>\<open>mtime\<close>, each \<^verbatim>\<open>nil\<close> (\<open>None\<close>) until it is set.
\<close>

record template =
  blk :: "string \<rightharpoonup> routine"
  main :: "routine option"
  extends :: "string option"
  mtime :: "int option"

type_synonym registry = "string \<rightharpoonup> template"

subsection \<open>Reading a chunk\<close>

text \<open>
  A level-0 long bracket \<^verbatim>\<open>[[ ... ]]\<close> ends at the first \<^verbatim>\<open>]]\<close>. \<open>long_bracket\<close> takes
  the text after the opening bracket and gives the raw content and the text after the
  closing bracket.
\<close>

fun long_bracket :: "string \<Rightarrow> string \<Rightarrow> (string \<times> string) option" where
  "long_bracket acc [] = None"
| "long_bracket acc (c # cs) =
    (if c = CHR '']'' \<and> cur cs = CHR '']'' then Some (rev acc, tl cs)
     else long_bracket (c # acc) cs)"

text \<open>
  The value of a long string: every newline sequence (\<^verbatim>\<open>\n\<close>, \<^verbatim>\<open>\r\<close>, \<^verbatim>\<open>\r\n\<close>,
  \<^verbatim>\<open>\n\r\<close>) reads as one \<^verbatim>\<open>\n\<close>, and a newline right after the opening bracket is not
  part of the string. \<open>pend\<close> is the newline character just read, whose partner is
  skipped.
\<close>

abbreviation (input) cr :: char where "cr \<equiv> CHR 0x0D"

fun lua_newlines :: "char option \<Rightarrow> string \<Rightarrow> string" where
  "lua_newlines pend [] = []"
| "lua_newlines pend (c # cs) =
    (if c = nl \<or> c = cr
     then (if pend = Some (if c = nl then cr else nl) then lua_newlines None cs
           else nl # lua_newlines (Some c) cs)
     else c # lua_newlines None cs)"

definition long_string :: "string \<Rightarrow> string" where
  "long_string raw =
    (if cur raw = nl \<or> cur raw = cr then tl (lua_newlines None raw)
     else lua_newlines None raw)"

text \<open>
  The statements of a chunk, one per line: the text is cut at every newline that is
  not inside a long bracket.
\<close>

datatype lx = Out | OutB | In | InB

fun lua_lines :: "lx \<Rightarrow> string \<Rightarrow> string \<Rightarrow> string list" where
  "lua_lines m acc [] = (if acc = [] then [] else [rev acc])"
| "lua_lines m acc (c # cs) =
    (case m of
       Out \<Rightarrow> if c = nl then rev acc # lua_lines Out [] cs
              else lua_lines (if c = CHR ''['' then OutB else Out) (c # acc) cs
     | OutB \<Rightarrow> if c = nl then rev acc # lua_lines Out [] cs
               else lua_lines (if c = CHR ''['' then In else Out) (c # acc) cs
     | In \<Rightarrow> lua_lines (if c = CHR '']'' then InB else In) (c # acc) cs
     | InB \<Rightarrow> lua_lines (if c = CHR '']'' then Out else In) (c # acc) cs)"

definition strip_prefix :: "string \<Rightarrow> string \<Rightarrow> string option" where
  "strip_prefix pre s =
    (if take (length pre) s = pre then Some (drop (length pre) s) else None)"

definition strip_suffix :: "string \<Rightarrow> string \<Rightarrow> string option" where
  "strip_suffix suf s =
    (if length suf \<le> length s \<and> drop (length s - length suf) s = suf
     then Some (take (length s - length suf) s) else None)"

text \<open>
  A name between single quotes stands for itself when it has no quote, backslash or
  newline in it.
\<close>

definition quotable :: "string \<Rightarrow> bool" where
  "quotable name = (sq \<notin> set name \<and> bsl \<notin> set name \<and> nl \<notin> set name \<and> cr \<notin> set name
                    \<and> NUL \<notin> set name)"

definition quoted_between :: "string \<Rightarrow> string \<Rightarrow> string \<Rightarrow> string option" where
  "quoted_between pre suf s =
    (case strip_prefix (pre @ [sq]) s of
       None \<Rightarrow> None
     | Some s1 \<Rightarrow>
         (case strip_suffix (sq # suf) s1 of
            None \<Rightarrow> None
          | Some name \<Rightarrow> if quotable name then Some name else None))"

text \<open>A Lua name: letters, digits and underscores, not starting with a digit, not reserved.\<close>

definition is_alpha :: "char \<Rightarrow> bool" where
  "is_alpha c =
    ((65 \<le> (of_char c :: nat) \<and> (of_char c :: nat) \<le> 90)
     \<or> (97 \<le> (of_char c :: nat) \<and> (of_char c :: nat) \<le> 122) \<or> c = CHR ''_'')"

definition is_alnum :: "char \<Rightarrow> bool" where
  "is_alnum c = (is_alpha c \<or> (48 \<le> (of_char c :: nat) \<and> (of_char c :: nat) \<le> 57))"

definition reserved :: "string list" where
  "reserved =
    [''and'', ''break'', ''do'', ''else'', ''elseif'', ''end'', ''false'', ''for'',
     ''function'', ''goto'', ''if'', ''in'', ''local'', ''nil'', ''not'', ''or'',
     ''repeat'', ''return'', ''then'', ''true'', ''until'', ''while'']"

definition is_name :: "string \<Rightarrow> bool" where
  "is_name x = (x \<noteq> [] \<and> is_alpha (hd x) \<and> list_all is_alnum x \<and> x \<notin> set reserved)"

text \<open>The lines of the fragment.\<close>

datatype line =
  L_end | L_mainnil | L_extends string | L_if string | L_blk string
  | L_stmt stmt | L_blank

text \<open>
  \<^verbatim>\<open>print(\<close> followed by at most one escape helper, a variable, white space and the
  closing parentheses.
\<close>

definition escape_helpers :: "string list" where
  "escape_helpers = [''escape_html'', ''escape_xml'', ''escape_url'', ''escape_latex'']"

definition print_expr :: "string \<Rightarrow> stmt option" where
  "print_expr s =
    (case find (\<lambda>h. strip_prefix (h @ ''('') s \<noteq> None) escape_helpers of
       Some h \<Rightarrow>
         (let s1 = drop (length h + 1) s; x = takeWhile is_alnum s1
          in if is_name x \<and> dropWhile isspace (drop (length x) s1) = ''))''
             then Some (PrintExpr [h] x) else None)
     | None \<Rightarrow>
         (let x = takeWhile is_alnum s
          in if is_name x \<and> dropWhile isspace (drop (length x) s) = '')''
             then Some (PrintExpr [] x) else None))"

definition classify :: "string \<Rightarrow> string \<Rightarrow> line option" where
  "classify name l =
    (if l = ''end'' then Some L_end
     else if l = tmpl name @ ''.main = nil'' then Some L_mainnil
     else if list_all isspace l then Some L_blank
     else case strip_prefix ''print([['' l of
       Some s \<Rightarrow>
         (case long_bracket [] s of
            Some (raw, rest) \<Rightarrow>
              if rest = '')'' then Some (L_stmt (PrintLit (long_string raw))) else None
          | None \<Rightarrow> None)
     | None \<Rightarrow>
     (case strip_prefix ''print('' l of
       Some s \<Rightarrow> map_option L_stmt (print_expr s)
     | None \<Rightarrow>
     (case quoted_between ''render_template(_ENV, '' '')'' l of
       Some m \<Rightarrow> Some (L_stmt (RenderTemplate m))
     | None \<Rightarrow>
     (case quoted_between ''render_block(_ENV, _t, '' '')'' l of
       Some b \<Rightarrow> Some (L_stmt (RenderBlock b))
     | None \<Rightarrow>
     (case quoted_between (tmpl name @ ''.extends = '') [] l of
       Some p \<Rightarrow> Some (L_extends p)
     | None \<Rightarrow>
     (case quoted_between (''if '' @ tmpl name @ ''.blk['') ''] == nil then'' l of
       Some b \<Rightarrow> Some (L_if b)
     | None \<Rightarrow>
     (case quoted_between (tmpl name @ ''.blk['') ''] = function (_ENV)'' l of
       Some b \<Rightarrow> Some (L_blk b)
     | None \<Rightarrow> None)))))))"

text \<open>
  The statements at the top level of a chunk, all about the table \<^verbatim>\<open>template[name]\<close>
  of the chunk's own template: a new entry, the main routine, \<^verbatim>\<open>main = nil\<close>,
  \<^verbatim>\<open>extends = 'parent'\<close>, and a block routine (guarded by \<^verbatim>\<open>if ... == nil\<close> or not).
\<close>

datatype top =
  TNew | TMain routine | TMainNil | TExtends string | TBlock bool string routine

datatype pmode =
  AtTop | InMain routine | AfterIf string | InBlock bool string routine | AfterBlock

fun parse_lines :: "pmode \<Rightarrow> top list \<Rightarrow> line list \<Rightarrow> top list option" where
  "parse_lines m acc [] = (if m = AtTop then Some (rev acc) else None)"
| "parse_lines m acc (l # ls) =
    (case m of
       AtTop \<Rightarrow>
         (case l of
            L_mainnil \<Rightarrow> parse_lines AtTop (TMainNil # acc) ls
          | L_extends p \<Rightarrow> parse_lines AtTop (TExtends p # acc) ls
          | L_if b \<Rightarrow> parse_lines (AfterIf b) acc ls
          | L_blk b \<Rightarrow> parse_lines (InBlock False b []) acc ls
          | L_blank \<Rightarrow> parse_lines AtTop acc ls
          | _ \<Rightarrow> None)
     | InMain ss \<Rightarrow>
         (case l of
            L_stmt s \<Rightarrow> parse_lines (InMain (s # ss)) acc ls
          | L_blank \<Rightarrow> parse_lines (InMain ss) acc ls
          | L_end \<Rightarrow> parse_lines AtTop (TMain (rev ss) # acc) ls
          | _ \<Rightarrow> None)
     | AfterIf b \<Rightarrow>
         (case l of
            L_blk b' \<Rightarrow> if b' = b then parse_lines (InBlock True b []) acc ls else None
          | _ \<Rightarrow> None)
     | InBlock g b ss \<Rightarrow>
         (case l of
            L_stmt (RenderBlock b') \<Rightarrow> None
          | L_stmt s \<Rightarrow> parse_lines (InBlock g b (s # ss)) acc ls
          | L_blank \<Rightarrow> parse_lines (InBlock g b ss) acc ls
          | L_end \<Rightarrow>
              parse_lines (if g then AfterBlock else AtTop) (TBlock g b (rev ss) # acc) ls
          | _ \<Rightarrow> None)
     | AfterBlock \<Rightarrow>
         (case l of
            L_end \<Rightarrow> parse_lines AtTop acc ls
          | _ \<Rightarrow> None))"

text \<open>
  \<^verbatim>\<open>luaL_loadbuffer(L, buff, len, fnam)\<close> on the fragment. A chunk starts with
  \<^verbatim>\<open>_ENV = ...\<close>, which makes the container its environment. When the next two lines
  create the entry of the template and open its main routine (the first lines of the
  body buffer), the statements of the main routine follow; otherwise the chunk consists
  of statements at the top level (the buffer of the blocks). \<open>None\<close>: the text is
  outside the fragment.
\<close>

definition env_line :: string where
  "env_line = ''_ENV = ...'' @ [nl]"

definition main_lines :: "string \<Rightarrow> string" where
  "main_lines name =
    tmpl name @ '' = { blk = {} }'' @ [nl] @ tmpl name @ ''.main = function(_ENV, _t)'' @ [nl]"

definition load_lines :: "string \<Rightarrow> pmode \<Rightarrow> top list \<Rightarrow> string \<Rightarrow> top list option" where
  "load_lines name m acc text =
    (case those (map (classify name) (lua_lines Out [] text)) of
       None \<Rightarrow> None
     | Some ls \<Rightarrow> parse_lines m acc ls)"

definition lua_load :: "string \<Rightarrow> string \<Rightarrow> top list option" where
  "lua_load name text =
    (if \<not> quotable name then None
     else case strip_prefix env_line text of
       None \<Rightarrow> None
     | Some t1 \<Rightarrow>
         (case strip_prefix (main_lines name) t1 of
            Some t2 \<Rightarrow> load_lines name (InMain []) [TNew] t2
          | None \<Rightarrow> load_lines name AtTop [] t1))"

subsection \<open>Running a chunk\<close>

text \<open>
  \<^verbatim>\<open>lua_pcall\<close> of a loaded chunk with the container as its argument. The chunk changes
  the entry of its own template only. A statement that indexes \<^verbatim>\<open>template[name]\<close>
  before the entry exists raises an error in Lua; the generator never writes such a
  chunk, and the model leaves it \<open>None\<close>.
\<close>

definition new_template :: template where
  "new_template = \<lparr>blk = Map.empty, main = None, extends = None, mtime = None\<rparr>"

fun run_top :: "string \<Rightarrow> top \<Rightarrow> registry \<Rightarrow> registry option" where
  "run_top name TNew reg = Some (reg(name \<mapsto> new_template))"
| "run_top name (TMain r) reg =
    (case reg name of None \<Rightarrow> None | Some e \<Rightarrow> Some (reg(name \<mapsto> e\<lparr>main := Some r\<rparr>)))"
| "run_top name TMainNil reg =
    (case reg name of None \<Rightarrow> None | Some e \<Rightarrow> Some (reg(name \<mapsto> e\<lparr>main := None\<rparr>)))"
| "run_top name (TExtends p) reg =
    (case reg name of None \<Rightarrow> None | Some e \<Rightarrow> Some (reg(name \<mapsto> e\<lparr>extends := Some p\<rparr>)))"
| "run_top name (TBlock g b r) reg =
    (case reg name of
       None \<Rightarrow> None
     | Some e \<Rightarrow>
         if g \<and> blk e b \<noteq> None then Some reg
         else Some (reg(name \<mapsto> e\<lparr>blk := (blk e)(b \<mapsto> r)\<rparr>)))"

fun run_chunk :: "string \<Rightarrow> top list \<Rightarrow> registry \<Rightarrow> registry option" where
  "run_chunk name [] reg = Some reg"
| "run_chunk name (t # ts) reg =
    (case run_top name t reg of None \<Rightarrow> None | Some reg' \<Rightarrow> run_chunk name ts reg')"

section \<open>Compilation: \<^verbatim>\<open>process_file\<close>\<close>

text \<open>
  The files that \<^verbatim>\<open>stat\<close> finds: a path has a modification time and a content, whose
  length is \<^verbatim>\<open>st_size\<close>. A file that can be found can be opened and mapped, unless it
  is empty: \<^verbatim>\<open>mmap\<close> of length 0 fails.
\<close>

record source_file =
  st_mtime :: int
  content :: string

type_synonym filesystem = "string \<rightharpoonup> source_file"

text \<open>
  Modelled from the spec: the size of a page belongs to the platform, not to the
  sources; 4096 is its value on Linux, the platform of the makefile. \<^verbatim>\<open>mmap(0,
  sb.st_size, ...)\<close> maps whole pages: after the bytes of the file the last page holds
  \<open>padding\<close> zero bytes, none when the size of the file is a multiple of the page size.
\<close>

definition page_size :: nat where
  "page_size = 4096"

definition padding :: "nat \<Rightarrow> nat" where
  "padding len = (page_size - len mod page_size) mod page_size"

text \<open>
  \<^verbatim>\<open>reader\<close> is given the address of the mapping and no length. Its scan is defined
  when it ends on a byte of the mapping (a zero byte among the bytes of the file, or one
  of the padding, \<open>r_past\<close> bytes after the end of the file) and has read \<^verbatim>\<open>fnam\<close> only
  where it held a string. Otherwise it has read outside the mapping, outside the array,
  or what was never written.
\<close>

definition scan_defined :: "source_file \<Rightarrow> reader_st \<Rightarrow> bool" where
  "scan_defined f r =
    (\<not> r_undef r \<and> (r_p r \<noteq> [] \<or> r_past r < padding (length (content f))))"

text \<open>Errors: the messages of \<^verbatim>\<open>process_file\<close> and \<^verbatim>\<open>render_file\<close>, and the Lua errors
  that the modelled fragment can raise. The last four are not errors of the program but
  ends of the model: \<open>not_modelled\<close> stands for a run that leaves the fragment of Lua
  described above (what the program does from there on is not described),
  \<open>undefined_behaviour\<close> for a scan that reads outside the mapping or reads \<^verbatim>\<open>fnam\<close>
  where it holds no string (C gives it no meaning), \<open>loops_forever\<close> for a loop that never ends, and
  \<open>out_of_fuel\<close> for a recursion deeper than the bound given to the model.\<close>

datatype lt_error =
  cant_stat string
  | cant_mmap string
  | recursion_detected string
  | index_nil
  | call_nil string
  | call_string string
  | integer_expected
  | processing_failed lt_error
  | render_error lt_error
  | not_modelled
  | undefined_behaviour
  | loops_forever
  | out_of_fuel

text \<open>
  \<^verbatim>\<open>snprintf(path, sizeof path, "custom/%s", fnam); if (stat(path, &sb)) { strncpy(path,
  fnam, sizeof path); if (stat(path, &sb)) ... }\<close>
\<close>

definition resolve :: "filesystem \<Rightarrow> string \<Rightarrow> source_file option" where
  "resolve fs fnam = (case fs (''custom/'' @ fnam) of Some f \<Rightarrow> Some f | None \<Rightarrow> fs fnam)"

text \<open>\<^verbatim>\<open>luaL_loadbuffer\<close> and \<^verbatim>\<open>lua_pcall\<close> of one buffer, with the container as argument.\<close>

definition load_and_run :: "string \<Rightarrow> string \<Rightarrow> registry \<Rightarrow> registry option" where
  "load_and_run fnam text reg =
    (case lua_load fnam text of None \<Rightarrow> None | Some c \<Rightarrow> run_chunk fnam c reg)"

text \<open>
  \<^verbatim>\<open>process_file(L, fnam, ihead, print)\<close>. The state is the registry (the table
  \<^verbatim>\<open>template\<close> of the container on the Lua stack) and the list \<^verbatim>\<open>ihead\<close> of the
  templates being compiled, which belongs to the context. The result is the error
  (\<open>None\<close> for the return value 0) and the state as the call leaves it: an error return
  neither undoes what was registered nor pops \<^verbatim>\<open>ihead\<close>.

  \<^verbatim>\<open>reader\<close> leaves the body on top of the blocks, so the body is loaded and run
  first, then the blocks. The loop over \<^verbatim>\<open>includes\<close> first looks for the name in
  \<^verbatim>\<open>ihead\<close>, then asks whether \<^verbatim>\<open>template[name]\<close> is \<^verbatim>\<open>nil\<close>, and only then
  recurses. The first argument bounds the depth of the recursion.

  The model ends, with the name pushed on \<^verbatim>\<open>ihead\<close>, in two cases that are not errors
  of the program. When the scan is not defined, the result is \<open>undefined_behaviour\<close>.
  When a buffer is outside the fragment of Lua described above, the result is
  \<open>not_modelled\<close>: the program itself goes on there (Lua loads and runs the chunk and
  the walk continues, or Lua reports a syntax error), and nothing is said about it.
\<close>

fun process_file ::
    "nat \<Rightarrow> filesystem \<Rightarrow> string \<Rightarrow> registry \<times> string list
      \<Rightarrow> lt_error option \<times> registry \<times> string list"
  and process_includes ::
    "nat \<Rightarrow> filesystem \<Rightarrow> string list \<Rightarrow> registry \<times> string list
      \<Rightarrow> lt_error option \<times> registry \<times> string list"
where
  "process_file 0 fs fnam st = (Some out_of_fuel, st)"
| "process_file (Suc n) fs fnam st =
    (case resolve fs fnam of
       None \<Rightarrow> (Some (cant_stat fnam), st)
     | Some f \<Rightarrow>
         if content f = [] then (Some (cant_mmap fnam), st)
         else
           (case reader (content f) fnam of
              None \<Rightarrow> (Some loops_forever, (fst st, fnam # snd st))
            | Some r \<Rightarrow>
                if scan_defined f r
                then
                  (case load_and_run fnam (r_body r) (fst st) of
                     None \<Rightarrow> (Some not_modelled, (fst st, fnam # snd st))
                   | Some reg1 \<Rightarrow>
                       (case load_and_run fnam (r_blocks r) reg1 of
                          None \<Rightarrow> (Some not_modelled, (reg1, fnam # snd st))
                        | Some reg2 \<Rightarrow>
                            (case process_includes n fs (r_includes r) (reg2, fnam # snd st) of
                               (Some e, st') \<Rightarrow> (Some e, st')
                             | (None, st') \<Rightarrow> (None, (fst st', tl (snd st'))))))
                else (Some undefined_behaviour, (fst st, fnam # snd st))))"
| "process_includes n fs [] st = (None, st)"
| "process_includes n fs (inc # incs) st =
    (if inc \<in> set (snd st) then (Some (recursion_detected inc), st)
     else if fst st inc = None
     then (case process_file n fs inc st of
             (Some e, st') \<Rightarrow> (Some e, st')
           | (None, st') \<Rightarrow> process_includes n fs incs st')
     else process_includes n fs incs st)"

section \<open>Rendering\<close>

subsection \<open>The Lua helpers \<^verbatim>\<open>render_block\<close> and \<^verbatim>\<open>render_template\<close>\<close>

text \<open>
  \<^verbatim>\<open>while t ~= nil and template[t].blk[b] == nil do t = template[t].extends end\<close>
  The loop ends with \<^verbatim>\<open>t\<close> and the routine \<^verbatim>\<open>template[t].blk[b]\<close>, with \<^verbatim>\<open>nil\<close>, or
  with an error when \<^verbatim>\<open>template[t]\<close> is \<^verbatim>\<open>nil\<close>; \<open>None\<close> is a loop that never ends.
\<close>

partial_function (option) block_walk ::
    "registry \<Rightarrow> string option \<Rightarrow> string \<Rightarrow> (lt_error + (string \<times> routine) option) option"
where
  "block_walk reg t b =
    (case t of
       None \<Rightarrow> Some (Inr None)
     | Some n \<Rightarrow>
         (case reg n of
            None \<Rightarrow> Some (Inl index_nil)
          | Some e \<Rightarrow>
              (case blk e b of
                 None \<Rightarrow> block_walk reg (extends e) b
               | Some r \<Rightarrow> Some (Inr (Some (n, r))))))"

declare block_walk.simps [code]

text \<open>\<^verbatim>\<open>while template[n].extends ~= nil do n = template[n].extends end\<close>\<close>

partial_function (option) root_walk ::
    "registry \<Rightarrow> string \<Rightarrow> (lt_error + string) option"
where
  "root_walk reg n =
    (case reg n of
       None \<Rightarrow> Some (Inl index_nil)
     | Some e \<Rightarrow>
         (case extends e of
            None \<Rightarrow> Some (Inr n)
          | Some p \<Rightarrow> root_walk reg p))"

declare root_walk.simps [code]

text \<open>
  The environment of a render is the table of data the host passes; here its fields
  are strings. \<^verbatim>\<open>render_template\<close> stores \<^verbatim>\<open>print\<close>, \<^verbatim>\<open>string\<close>, \<^verbatim>\<open>render_block\<close> and
  \<^verbatim>\<open>render_template\<close> in it before any routine runs, so under these four names a
  routine finds the helpers, whatever the data held.
\<close>

type_synonym env = "string \<rightharpoonup> string"

definition helper_names :: "string list" where
  "helper_names = [''print'', ''string'', ''render_block'', ''render_template'']"

text \<open>
  The routine that \<^verbatim>\<open>render_template(env, n)\<close> calls: the walk to the root, then
  \<^verbatim>\<open>template[n].main\<close>, which must not be \<^verbatim>\<open>nil\<close>.
\<close>

definition template_main :: "registry \<Rightarrow> string \<Rightarrow> lt_error + routine" where
  "template_main reg n =
    (case root_walk reg n of
       None \<Rightarrow> Inl loops_forever
     | Some (Inl e) \<Rightarrow> Inl e
     | Some (Inr root) \<Rightarrow>
         (case reg root of
            None \<Rightarrow> Inl index_nil
          | Some e \<Rightarrow>
              (case main e of
                 None \<Rightarrow> Inl (call_nil ''main'')
               | Some body \<Rightarrow> Inr body)))"

text \<open>
  The routine that \<^verbatim>\<open>render_block(env, t, b)\<close> calls, if any:
  \<^verbatim>\<open>if t ~= nil and template[t].blk[b] ~= nil then template[t].blk[b](env) end\<close>
\<close>

definition block_routine ::
    "registry \<Rightarrow> string option \<Rightarrow> string \<Rightarrow> lt_error + routine option" where
  "block_routine reg t b =
    (case block_walk reg t b of
       None \<Rightarrow> Inl loops_forever
     | Some (Inl e) \<Rightarrow> Inl e
     | Some (Inr None) \<Rightarrow> Inr None
     | Some (Inr (Some (n, r))) \<Rightarrow> Inr (Some r))"

text \<open>
  Running a routine. \<open>out\<close> is what \<^verbatim>\<open>print\<close> has written to the sink so far. The
  first argument bounds the depth of nested routine calls. A main routine is
  \<^verbatim>\<open>function(_ENV, _t)\<close>, called as \<^verbatim>\<open>main(env, tn)\<close>: in it \<^verbatim>\<open>_t\<close> is the parameter,
  the name \<^verbatim>\<open>tn\<close> that \<^verbatim>\<open>render_template\<close> was called with. A block routine is
  \<^verbatim>\<open>function (_ENV)\<close>, called as \<^verbatim>\<open>blk[b](env)\<close>: in it \<^verbatim>\<open>_t\<close> is the field of that
  name of the environment. \<open>t\<close> below is the value of \<^verbatim>\<open>_t\<close> in the routine that runs.

  The value of a variable: \<^verbatim>\<open>_t\<close> as said; \<^verbatim>\<open>_ENV\<close> is the environment itself and the
  four helper names are functions and tables, whose printed form the model does not
  describe; every other name is a field of the environment. An escape helper is looked
  up in the environment like any other name; the data hold strings only, so the call of
  one raises an error.
\<close>

definition variable :: "env \<Rightarrow> string option \<Rightarrow> string \<Rightarrow> string option" where
  "variable env t x = (if x = ''_t'' then t else env x)"

definition print_value ::
    "env \<Rightarrow> string option \<Rightarrow> string list \<Rightarrow> string \<Rightarrow> string \<Rightarrow> lt_error + string" where
  "print_value env t ws x out =
    (if ws = []
     then (if x \<in> set helper_names \<or> x = ''_ENV'' then Inl not_modelled
           else case variable env t x of
                  None \<Rightarrow> Inl not_modelled
                | Some v \<Rightarrow> Inr (out @ v))
     else (if last ws \<in> set helper_names then Inl not_modelled
           else case env (last ws) of
                  None \<Rightarrow> Inl (call_nil (last ws))
                | Some v \<Rightarrow> Inl (call_string (last ws))))"

function exec_stmts ::
    "nat \<Rightarrow> registry \<Rightarrow> env \<Rightarrow> string option \<Rightarrow> routine \<Rightarrow> string \<Rightarrow> lt_error + string"
where
  "exec_stmts fuel reg env t [] out = Inr out"
| "exec_stmts fuel reg env t (s # ss) out =
    (case (case s of
             PrintLit v \<Rightarrow> Inr (out @ v)
           | PrintExpr ws x \<Rightarrow> print_value env t ws x out
           | RenderTemplate n \<Rightarrow>
               (case template_main reg n of
                  Inl e \<Rightarrow> Inl e
                | Inr body \<Rightarrow>
                    (case fuel of
                       0 \<Rightarrow> Inl out_of_fuel
                     | Suc k \<Rightarrow> exec_stmts k reg env (Some n) body out))
           | RenderBlock b \<Rightarrow>
               (case block_routine reg t b of
                  Inl e \<Rightarrow> Inl e
                | Inr None \<Rightarrow> Inr out
                | Inr (Some r) \<Rightarrow>
                    (case fuel of
                       0 \<Rightarrow> Inl out_of_fuel
                     | Suc k \<Rightarrow> exec_stmts k reg env (env ''_t'') r out))) of
       Inl e \<Rightarrow> Inl e
     | Inr out' \<Rightarrow> exec_stmts fuel reg env t ss out')"
  by pat_completeness auto
termination
  by (relation "measures [\<lambda>(fuel, reg, env, t, ss, out). fuel,
                          \<lambda>(fuel, reg, env, t, ss, out). length ss]") auto

text \<open>
  \<^verbatim>\<open>render_template(env, n)\<close> and \<^verbatim>\<open>render_block(env, t, b)\<close> as the host and the
  routines call them.
\<close>

definition render_template ::
    "nat \<Rightarrow> registry \<Rightarrow> env \<Rightarrow> string \<Rightarrow> string \<Rightarrow> lt_error + string" where
  "render_template fuel reg env n out = exec_stmts fuel reg env None [RenderTemplate n] out"

definition render_block ::
    "nat \<Rightarrow> registry \<Rightarrow> env \<Rightarrow> string option \<Rightarrow> string \<Rightarrow> string \<Rightarrow> lt_error + string" where
  "render_block fuel reg env t b out = exec_stmts fuel reg env t [RenderBlock b] out"

subsection \<open>The context and its host functions\<close>

text \<open>
  \<^verbatim>\<open>struct render_context\<close> with the user value of the userdata: the container, of
  which the model keeps the table \<^verbatim>\<open>template\<close> (its other fields are the helpers and
  the sink). \<open>None\<close> is the user value \<^verbatim>\<open>nil\<close>.
\<close>

record render_context =
  ihead :: "string list"
  debug :: bool
  uservalue :: "registry option"

text \<open>\<^verbatim>\<open>template_context\<close>: a new context with an empty registry.\<close>

definition template_context :: render_context where
  "template_context = \<lparr>ihead = [], debug = False, uservalue = Some Map.empty\<rparr>"

text \<open>\<^verbatim>\<open>render_debug\<close>: \<^verbatim>\<open>ctx->debug = lua_toboolean(L, 2)\<close>.\<close>

definition render_debug :: "render_context \<Rightarrow> bool \<Rightarrow> render_context" where
  "render_debug ctx flag = ctx\<lparr>debug := flag\<rparr>"

text \<open>\<^verbatim>\<open>render_clear\<close>: \<^verbatim>\<open>lua_pushnil(L); lua_setuservalue(L, -2)\<close>.\<close>

definition render_clear :: "render_context \<Rightarrow> render_context" where
  "render_clear ctx = ctx\<lparr>uservalue := None\<rparr>"

text \<open>
  The check of a cached entry in \<^verbatim>\<open>render_file\<close>: \<^verbatim>\<open>luaL_checkinteger\<close> raises an
  error when the field \<^verbatim>\<open>mtime\<close> is not an integer; an entry whose \<^verbatim>\<open>mtime\<close> differs
  from the file's is removed.
\<close>

definition check_mtime :: "registry \<Rightarrow> string \<Rightarrow> int \<Rightarrow> lt_error + registry" where
  "check_mtime reg fnam mt =
    (case reg fnam of
       None \<Rightarrow> Inr reg
     | Some e \<Rightarrow>
         (case mtime e of
            None \<Rightarrow> Inl integer_expected
          | Some m \<Rightarrow> if m \<noteq> mt then Inr (reg(fnam := None)) else Inr reg))"

text \<open>
  \<^verbatim>\<open>render_file\<close>, the method \<^verbatim>\<open>renderFile(fnam, data [, sink])\<close>, in two parts. The
  first part ends before the call of \<^verbatim>\<open>render_template\<close>: \<^verbatim>\<open>stat\<close> of the path, the
  user value (an index into \<^verbatim>\<open>nil\<close> raises an error), the check of a cached entry,
  and, when there is no entry or it was removed, \<^verbatim>\<open>process_file\<close> and the \<^verbatim>\<open>mtime\<close>
  of the new entry. Its result is the error raised, if any, and the context as it is
  then.
\<close>

definition render_file_prepare ::
    "nat \<Rightarrow> filesystem \<Rightarrow> render_context \<Rightarrow> string \<Rightarrow> lt_error option \<times> render_context" where
  "render_file_prepare fuel fs ctx fnam =
    (case fs fnam of
       None \<Rightarrow> (Some (cant_stat fnam), ctx)
     | Some sb \<Rightarrow>
         (case uservalue ctx of
            None \<Rightarrow> (Some index_nil, ctx)
          | Some reg \<Rightarrow>
              (case check_mtime reg fnam (st_mtime sb) of
                 Inl e \<Rightarrow> (Some e, ctx)
               | Inr reg0 \<Rightarrow>
                   if reg0 fnam = None
                   then (case process_file fuel fs fnam (reg0, ihead ctx) of
                           (Some e, st) \<Rightarrow>
                             (Some (processing_failed e),
                              ctx\<lparr>ihead := snd st, uservalue := Some (fst st)\<rparr>)
                         | (None, st) \<Rightarrow>
                             (case fst st fnam of
                                None \<Rightarrow>
                                  (Some index_nil,
                                   ctx\<lparr>ihead := snd st, uservalue := Some (fst st)\<rparr>)
                              | Some e \<Rightarrow>
                                  (None,
                                   ctx\<lparr>ihead := snd st,
                                       uservalue :=
                                         Some ((fst st)(fnam \<mapsto> e\<lparr>mtime := Some (st_mtime sb)\<rparr>))\<rparr>)))
                   else (None, ctx\<lparr>uservalue := Some reg0\<rparr>))))"

text \<open>
  The second part: \<^verbatim>\<open>render_template(data, fnam)\<close> under \<^verbatim>\<open>lua_pcall\<close>. The result of
  \<^verbatim>\<open>render_file\<close> is what the call wrote to the sink, or the error it raised, and the
  context as the call leaves it. What was written before an error is not kept in the
  model.
\<close>

definition render_file ::
    "nat \<Rightarrow> filesystem \<Rightarrow> render_context \<Rightarrow> string \<Rightarrow> env
      \<Rightarrow> (lt_error + string) \<times> render_context" where
  "render_file fuel fs ctx fnam data =
    (case render_file_prepare fuel fs ctx fnam of
       (Some e, ctx') \<Rightarrow> (Inl e, ctx')
     | (None, ctx') \<Rightarrow>
         (case uservalue ctx' of
            None \<Rightarrow> (Inl index_nil, ctx')
          | Some reg \<Rightarrow>
              (case render_template fuel reg data fnam [] of
                 Inl e \<Rightarrow> (Inl (render_error e), ctx')
               | Inr out \<Rightarrow> (Inr out, ctx'))))"

text \<open>
  \<^verbatim>\<open>luaopen_template\<close>: the methods of a context are the fields that an index into the
  metatable finds (\<^verbatim>\<open>__index\<close> is the metatable itself).
\<close>

datatype cfunction = c_template_context | c_render_file | c_render_debug | c_render_clear

datatype mfield = MFunction cfunction | MSelf | MLiteral string

definition luatemplate :: "(string \<times> cfunction) list" where
  "luatemplate = [(''context'', c_template_context)]"

definition render_methods :: "(string \<times> cfunction) list" where
  "render_methods = [(''renderFile'', c_render_file), (''debug'', c_render_debug)]"

definition context_metatable :: "(string \<times> mfield) list" where
  "context_metatable =
    map (\<lambda>(k, f). (k, MFunction f)) render_methods
    @ [(''__gc'', MFunction c_render_clear),
       (''__index'', MSelf),
       (''__metatable'', MLiteral ''must not access this metatable'')]"

definition context_field :: "string \<Rightarrow> mfield option" where
  "context_field name = map_of context_metatable name"

section \<open>Notions used to state the properties\<close>

text \<open>
  An extends chain of the registry: \<open>ext_chain reg n ps\<close> says that the templates
  \<open>n # ps\<close> are all registered, that each names the next as its parent, and that the
  last one (the root) has none.
\<close>

fun ext_chain :: "registry \<Rightarrow> string \<Rightarrow> string list \<Rightarrow> bool" where
  "ext_chain reg n [] = (case reg n of None \<Rightarrow> False | Some e \<Rightarrow> extends e = None)"
| "ext_chain reg n (p # ps) =
    (case reg n of None \<Rightarrow> False | Some e \<Rightarrow> extends e = Some p \<and> ext_chain reg p ps)"


text \<open>The template \<open>name\<close> has no entry in the registry, or one without \<^verbatim>\<open>mtime\<close>.\<close>

definition no_mtime :: "registry \<Rightarrow> string \<Rightarrow> bool" where
  "no_mtime reg name = (case reg name of None \<Rightarrow> True | Some e \<Rightarrow> mtime e = None)"

text \<open>The template \<open>name\<close> has an entry in the registry, and the entry has no \<^verbatim>\<open>mtime\<close>.\<close>

definition entry_without_mtime :: "registry \<Rightarrow> string \<Rightarrow> bool" where
  "entry_without_mtime reg name = (case reg name of None \<Rightarrow> False | Some e \<Rightarrow> mtime e = None)"

text \<open>The base template and the child of the specification's example.\<close>

definition fs_greeting :: filesystem where
  "fs_greeting =
     [''base'' \<mapsto> \<lparr>st_mtime = 1, content = ''<%! block greeting %>Hi<%! endblock %>''\<rparr>,
      ''child'' \<mapsto> \<lparr>st_mtime = 2,
         content = ''<%! extends base %><%! block greeting %>Hello<%! endblock %>''\<rparr>]"

text \<open>The registry after the child has been compiled and given its \<^verbatim>\<open>mtime\<close>.\<close>

definition reg_greeting :: registry where
  "reg_greeting =
     [''base'' \<mapsto> \<lparr>blk = [''greeting'' \<mapsto> [PrintLit ''Hi'']],
                     main = Some [RenderBlock ''greeting''], extends = None, mtime = None\<rparr>,
      ''child'' \<mapsto> \<lparr>blk = [''greeting'' \<mapsto> [PrintLit ''Hello'']],
                      main = None, extends = Some ''base'', mtime = Some 2\<rparr>]"

text \<open>A template whose last directive is not closed, and a template that is literal text
  starting with a newline.\<close>

definition fs_unclosed :: filesystem where
  "fs_unclosed = [''t'' \<mapsto> \<lparr>st_mtime = 1, content = ''Hi<%! foo''\<rparr>]"

definition fs_newline :: filesystem where
  "fs_newline = [''t'' \<mapsto> \<lparr>st_mtime = 1, content = nl # ''Hi''\<rparr>]"

text \<open>
  A template \<^verbatim>\<open>b\<close> rendered on its own, and the files at a later time: \<^verbatim>\<open>b\<close> has
  changed and a template \<^verbatim>\<open>a\<close> includes it. \<open>reg_old\<close> is the registry after the
  first render.
\<close>

definition fs_old :: filesystem where
  "fs_old = [''b'' \<mapsto> \<lparr>st_mtime = 6, content = ''old''\<rparr>]"

definition fs_new :: filesystem where
  "fs_new = [''a'' \<mapsto> \<lparr>st_mtime = 5, content = ''<%! include b %>''\<rparr>,
             ''b'' \<mapsto> \<lparr>st_mtime = 7, content = ''new''\<rparr>]"

definition reg_old :: registry where
  "reg_old = [''b'' \<mapsto> \<lparr>blk = Map.empty, main = Some [PrintLit ''old''],
                           extends = None, mtime = Some 6\<rparr>]"

text \<open>A template with two includes; neither file exists.\<close>

definition two_includes :: string where
  "two_includes = ''<%! include first %><%! include second %>''"

definition fs_two :: filesystem where
  "fs_two = [''t'' \<mapsto> \<lparr>st_mtime = 1, content = two_includes\<rparr>]"

text \<open>
  The text of an expression: it has no NUL in it and \<^verbatim>\<open>%>\<close> does not occur in it.
\<close>

fun expr_text :: "string \<Rightarrow> bool" where
  "expr_text [] = True"
| "expr_text (c # cs) = (c \<noteq> NUL \<and> \<not> starts ''%>'' (c # cs) \<and> expr_text cs)"

text \<open>
  The mode tags of an expression, and the text that opens and closes the print
  statement of an expression in each mode.
\<close>

definition tag_of :: "lt_escapes \<Rightarrow> string" where
  "tag_of m =
    (case m of e_none \<Rightarrow> ''none'' | e_html \<Rightarrow> ''html'' | e_xml \<Rightarrow> ''xml''
     | e_latex \<Rightarrow> ''latex'' | e_url \<Rightarrow> ''url'')"

definition print_open :: "lt_escapes \<Rightarrow> string" where
  "print_open m =
    (case m of e_none \<Rightarrow> ''print('' | e_html \<Rightarrow> ''print(escape_html(''
     | e_xml \<Rightarrow> ''print(escape_xml('' | e_latex \<Rightarrow> ''print(escape_latex(''
     | e_url \<Rightarrow> ''print(escape_url('')"

definition print_close :: "lt_escapes \<Rightarrow> string" where
  "print_close m = (case m of e_none \<Rightarrow> '')'' @ [nl] | _ \<Rightarrow> ''))'' @ [nl])"


text \<open>The template \<^verbatim>\<open><%=html name %>\<close>.\<close>

definition fs_tagged :: filesystem where
  "fs_tagged = [''t'' \<mapsto> \<lparr>st_mtime = 1, content = ''<%=html name %>''\<rparr>]"

text \<open>The template \<^verbatim>\<open><%! escape html %><%= name %>\<close>: the mode is set for the whole text.\<close>

definition fs_ambient :: filesystem where
  "fs_ambient = [''t'' \<mapsto> \<lparr>st_mtime = 1, content = ''<%! escape html %><%= name %>''\<rparr>]"

text \<open>The states in which the scanner's loop runs.\<close>

definition loop_state :: "lt_states \<Rightarrow> bool" where
  "loop_state s =
    (s = s_initial \<or> s = s_output \<or> s = s_code \<or> s = s_expression \<or> s = s_instruction)"

text \<open>
  The templates of a file system are the names that \<^verbatim>\<open>process_file\<close> can open. The
  dependencies of a template are the names its scan entered in the list of includes
  (\<^verbatim>\<open>include\<close> and \<^verbatim>\<open>extends\<close> directives), and \<open>depends\<close> is the dependency graph.
\<close>

definition templates :: "filesystem \<Rightarrow> string set" where
  "templates fs = {n. resolve fs n \<noteq> None}"

definition deps :: "filesystem \<Rightarrow> string \<Rightarrow> string list" where
  "deps fs n =
    (case resolve fs n of
       None \<Rightarrow> []
     | Some f \<Rightarrow> (case reader (content f) n of None \<Rightarrow> [] | Some r \<Rightarrow> r_includes r))"

definition depends :: "filesystem \<Rightarrow> (string \<times> string) set" where
  "depends fs = {(a, b). b \<in> set (deps fs a)}"

text \<open>
  During a compile that started with the registry \<open>reg0\<close> and the active names \<open>S0\<close>:
  every template that was registered since and is no longer active has all its
  dependencies registered, none of them among \<open>S0\<close>.
\<close>

definition deps_done ::
  "filesystem \<Rightarrow> registry \<Rightarrow> string set \<Rightarrow> registry \<Rightarrow> string list \<Rightarrow> bool" where
  "deps_done fs reg0 S0 reg ih =
    (\<forall>n. reg n \<noteq> None \<longrightarrow> reg0 n = None \<longrightarrow> n \<notin> set ih \<longrightarrow>
       (\<forall>d \<in> set (deps fs n). reg d \<noteq> None \<and> d \<notin> S0))"

text \<open>
  Two templates, \<^verbatim>\<open>A\<close> and \<^verbatim>\<open>B\<close>. At first \<^verbatim>\<open>A\<close> includes \<^verbatim>\<open>B\<close>, which is plain text.
  Then the file of \<^verbatim>\<open>B\<close> is changed: it now includes \<^verbatim>\<open>A\<close>. \<open>reg_b\<close> and \<open>reg_ab\<close> are
  the registries after \<^verbatim>\<open>B\<close> and then \<^verbatim>\<open>A\<close> have been rendered from the first files.
\<close>

definition fs_acyclic :: filesystem where
  "fs_acyclic = [''A'' \<mapsto> \<lparr>st_mtime = 1, content = ''<%! include B %>''\<rparr>,
                 ''B'' \<mapsto> \<lparr>st_mtime = 1, content = ''old''\<rparr>]"

definition fs_cyclic :: filesystem where
  "fs_cyclic = [''A'' \<mapsto> \<lparr>st_mtime = 1, content = ''<%! include B %>''\<rparr>,
                ''B'' \<mapsto> \<lparr>st_mtime = 2, content = ''<%! include A %>''\<rparr>]"

definition reg_b :: registry where
  "reg_b = [''B'' \<mapsto> \<lparr>blk = Map.empty, main = Some [PrintLit ''old''],
                       extends = None, mtime = Some 1\<rparr>]"

definition reg_ab :: registry where
  "reg_ab = reg_b(''A'' \<mapsto> \<lparr>blk = Map.empty, main = Some [RenderTemplate ''B''],
                             extends = None, mtime = Some 1\<rparr>)"

definition reg_cycle :: registry where
  "reg_cycle = reg_ab(''B'' \<mapsto> \<lparr>blk = Map.empty, main = Some [RenderTemplate ''A''],
                                extends = None, mtime = Some 2\<rparr>)"

section \<open>Theorems\<close>

subsection \<open>The escape lookup\<close>

lemma esc_scan_map_of: "esc_scan es c = map_of es c"
  by (induction es) auto

lemma map_of_keys:
  "map_of (map (\<lambda>k. (k, f k)) ks) c = (if c \<in> set ks then Some (f c) else None)"
  by (induction ks) auto

lemma url_escape_table:
  "url_escape = map (\<lambda>k. (k, percent_XX k)) (CHR '' '' # url_reserved)"
  by (simp add: url_escape_def url_reserved_def percent_XX_def hexdigit_def)

lemma lt_escape_url: "lt_escape e_url c = spec_url c"
  by (simp only: lt_escape_def lt_escapes.case esc_scan_map_of url_escape_table
      map_of_keys spec_url_def set_simps insert_iff)

lemma lt_escape_html: "lt_escape e_html c = spec_html c"
  by (simp add: lt_escape_def html_escape_def spec_html_def)

lemma lt_escape_xml: "lt_escape e_xml c = spec_xml c"
  by (simp add: lt_escape_def xml_escape_def spec_xml_def spec_html_def)

lemma lt_escape_latex: "lt_escape e_latex c = spec_latex c"
  by (simp add: lt_escape_def latex_escape_def spec_latex_def)

text \<open>
  Claim C3. For each of the escape modes html, xml, latex and url, and for every
  character, \<^verbatim>\<open>lt_escape\<close> returns exactly the substitution the specification's table
  gives when the character is in that mode's table, and no substitution (\<open>None\<close>, the
  \<^verbatim>\<open>NULL\<close> of the source: the character is left as it is) when it is not. The no-op
  mode substitutes nothing.
\<close>

theorem lt_escape_matches_tables:
  "lt_escape mode c = spec_escape mode c"
  by (cases mode)
    (simp_all add: spec_escape_def lt_escape_html lt_escape_xml lt_escape_latex lt_escape_url,
     simp add: lt_escape_def)

subsection \<open>Evaluation of the model on concrete templates\<close>

lemma next_char_fields [simp]:
  "r_p (next_char r) = tl (r_p r)" "r_state (next_char r) = r_state r"
  "r_escape (next_char r) = r_escape r" "r_extends (next_char r) = r_extends r"
  "r_block (next_char r) = r_block r" "r_output (next_char r) = r_output r"
  "r_cb (next_char r) = r_cb r" "r_fnam (next_char r) = r_fnam r" "r_b (next_char r) = r_b r"
  "r_body (next_char r) = r_body r" "r_blocks (next_char r) = r_blocks r"
  "r_includes (next_char r) = r_includes r" "r_unset (next_char r) = r_unset r"
  "r_undef (next_char r) = r_undef r"
  by (simp_all add: next_char_def)

lemma padding_of_small:
  "0 < n \<Longrightarrow> n < page_size \<Longrightarrow> padding n = page_size - n"
  by (simp add: padding_def)

lemmas rd_defs = reader_def reader_init_def reader_finish_def reader_step_def step_initial_def
  step_output_def step_code_def step_expression_def step_instruction_def instr_include_def
  instr_escape_def instr_block_def instr_endblock_def instr_extends_def open_expression_def
  open_format_def open_print_def mode_tag_def skip_space_def scan_name_def add_include_def
  buf_addstring_def buf_addchar_def starts_def cur_def isspace_def body_header_def
  blocks_header_def tmpl_def blk_of_def MAXPATHLEN_def reader_loop.simps next_char_def
  fills_fnam_def scan_defined_def padding_of_small page_size_def

lemmas lua_defs = lua_load_def load_lines_def env_line_def main_lines_def classify_def
  print_expr_def escape_helpers_def is_name_def is_alpha_def is_alnum_def reserved_def
  quoted_between_def quotable_def strip_prefix_def strip_suffix_def long_string_def
  load_and_run_def new_template_def

lemmas rn_defs = render_file_def render_file_prepare_def check_mtime_def resolve_def
  template_context_def render_template_def render_block_def template_main_def
  block_routine_def print_value_def variable_def helper_names_def root_walk.simps
  block_walk.simps

lemma prepare_child:
  "render_file_prepare 3 fs_greeting template_context ''child''
     = (None, \<lparr>ihead = [], debug = False, uservalue = Some reg_greeting\<rparr>)"
  by (simp add: fs_greeting_def rd_defs lua_defs rn_defs eval_nat_numeral reg_greeting_def)


lemma render_base: "fst (render_file 3 fs_greeting template_context ''base'' Map.empty) = Inr ''Hi''"
  by (simp add: fs_greeting_def rd_defs lua_defs rn_defs eval_nat_numeral)

lemma chain_greeting: "ext_chain reg_greeting ''child'' [''base'']"
  by (simp add: reg_greeting_def)

subsection \<open>Walking an extends chain\<close>


lemma root_walk_chain:
  "ext_chain reg n ps \<Longrightarrow> root_walk reg n = Some (Inr (last (n # ps)))"
proof (induction ps arbitrary: n)
  case Nil
  then show ?case
    by (subst root_walk.simps) (auto split: option.splits)
next
  case (Cons p ps)
  then obtain e where e: "reg n = Some e" "extends e = Some p" and ch: "ext_chain reg p ps"
    by (auto split: option.splits)
  have "root_walk reg n = root_walk reg p"
    using e by (subst root_walk.simps) simp
  then show ?case
    using Cons.IH [OF ch] by simp
qed


lemma render_template_Suc:
  "render_template (Suc fuel) reg env n out =
    (case template_main reg n of
       Inl e \<Rightarrow> Inl e
     | Inr body \<Rightarrow> exec_stmts fuel reg env (Some n) body out)"
  by (simp add: render_template_def split: sum.splits option.splits)




text \<open>
  Claim C5. When \<^verbatim>\<open>renderFile\<close> has found the requested template cached and fresh, or
  has compiled it, and the registry holds an extends chain from the requested template
  to a root that has a main routine, the call runs that root's main routine with the
  render environment (the data) and with the requested path, not the root's, as the
  argument \<^verbatim>\<open>_t\<close>, from which the block dispatch of the routine starts.
\<close>

theorem render_file_invokes_root_main:
  assumes "render_file_prepare (Suc fuel) fs ctx fnam = (None, ctx')"
    and "uservalue ctx' = Some reg"
    and "ext_chain reg fnam ps"
    and "reg (last (fnam # ps)) = Some root"
    and "main root = Some body"
  shows "render_file (Suc fuel) fs ctx fnam data =
           ((case exec_stmts fuel reg data (Some fnam) body [] of
               Inl err \<Rightarrow> Inl (render_error err)
             | Inr out \<Rightarrow> Inr out), ctx')"
proof -
  have "template_main reg fnam = Inr body"
    using assms(3-5) by (simp add: template_main_def root_walk_chain)
  then show ?thesis
    using assms(1,2) by (simp add: render_file_def render_template_Suc split: sum.splits)
qed

theorem render_file_invokes_root_main_witness:
  "render_file_prepare (Suc 2) fs_greeting template_context ''child''
       = (None, \<lparr>ihead = [], debug = False, uservalue = Some reg_greeting\<rparr>)
   \<and> ext_chain reg_greeting ''child'' [''base'']
   \<and> map_option main (reg_greeting (last [''child'', ''base''])) = Some (Some [RenderBlock ''greeting''])
   \<and> render_file (Suc 2) fs_greeting template_context ''child'' Map.empty
       = (exec_stmts 2 reg_greeting Map.empty (Some ''child'') [RenderBlock ''greeting''] [],
          \<lparr>ihead = [], debug = False, uservalue = Some reg_greeting\<rparr>)
   \<and> exec_stmts 2 reg_greeting Map.empty (Some ''child'') [RenderBlock ''greeting''] [] = Inr ''Hello''
   \<and> exec_stmts 2 reg_greeting Map.empty (Some ''base'') [RenderBlock ''greeting''] [] = Inr ''Hi''"
proof -
  have p: "render_file_prepare (Suc 2) fs_greeting template_context ''child''
       = (None, \<lparr>ihead = [], debug = False, uservalue = Some reg_greeting\<rparr>)"
    using prepare_child by (simp add: eval_nat_numeral)
  have r: "reg_greeting (last [''child'', ''base''])
      = Some \<lparr>blk = [''greeting'' \<mapsto> [PrintLit ''Hi'']],
               main = Some [RenderBlock ''greeting''], extends = None, mtime = None\<rparr>"
    by (simp add: reg_greeting_def)
  have x: "exec_stmts 2 reg_greeting Map.empty (Some ''child'') [RenderBlock ''greeting''] [] = Inr ''Hello''"
    "exec_stmts 2 reg_greeting Map.empty (Some ''base'') [RenderBlock ''greeting''] [] = Inr ''Hi''"
    by (simp_all add: reg_greeting_def rn_defs eval_nat_numeral)
  show ?thesis
    using render_file_invokes_root_main [OF p _ chain_greeting r, of "[RenderBlock ''greeting'']" Map.empty]
      p chain_greeting r x
    by simp
qed

subsection \<open>What running a chunk changes\<close>

lemma run_top_frame:
  "run_top name t reg = Some reg' \<Longrightarrow> d \<noteq> name \<Longrightarrow> reg' d = reg d"
  by (cases t) (auto split: option.splits if_splits)

lemma run_chunk_frame:
  "run_chunk name ts reg = Some reg' \<Longrightarrow> d \<noteq> name \<Longrightarrow> reg' d = reg d"
proof (induction ts arbitrary: reg)
  case Nil
  then show ?case by simp
next
  case (Cons t ts)
  then obtain reg1 where r: "run_top name t reg = Some reg1" "run_chunk name ts reg1 = Some reg'"
    by (auto split: option.splits)
  show ?case
    using Cons.IH [OF r(2) Cons.prems(2)] run_top_frame [OF r(1) Cons.prems(2)] by simp
qed

lemma run_top_no_mtime:
  "run_top name t reg = Some reg' \<Longrightarrow> no_mtime reg name \<Longrightarrow> no_mtime reg' name"
  by (cases t) (auto simp: no_mtime_def new_template_def split: option.splits if_splits)

lemma run_chunk_no_mtime:
  "run_chunk name ts reg = Some reg' \<Longrightarrow> no_mtime reg name \<Longrightarrow> no_mtime reg' name"
proof (induction ts arbitrary: reg)
  case Nil
  then show ?case by simp
next
  case (Cons t ts)
  then obtain reg1 where r: "run_top name t reg = Some reg1" "run_chunk name ts reg1 = Some reg'"
    by (auto split: option.splits)
  show ?case
    using Cons.IH [OF r(2)] run_top_no_mtime [OF r(1) Cons.prems(2)] by simp
qed

lemma run_top_keeps_entry:
  "run_top name t reg = Some reg' \<Longrightarrow> reg name \<noteq> None \<Longrightarrow> reg' name \<noteq> None"
  by (cases t) (auto split: option.splits if_splits)

lemma run_chunk_keeps_entry:
  "run_chunk name ts reg = Some reg' \<Longrightarrow> reg name \<noteq> None \<Longrightarrow> reg' name \<noteq> None"
proof (induction ts arbitrary: reg)
  case Nil
  then show ?case by simp
next
  case (Cons t ts)
  then obtain reg1 where r: "run_top name t reg = Some reg1" "run_chunk name ts reg1 = Some reg'"
    by (auto split: option.splits)
  show ?case
    using Cons.IH [OF r(2)] run_top_keeps_entry [OF r(1) Cons.prems(2)] by simp
qed

lemma run_chunk_new:
  assumes "run_chunk name (TNew # ts) reg = Some reg'"
  shows "no_mtime reg' name" and "reg' name \<noteq> None"
proof -
  have r: "run_chunk name ts (reg(name \<mapsto> new_template)) = Some reg'"
    using assms by simp
  show "no_mtime reg' name"
    by (rule run_chunk_no_mtime [OF r]) (simp add: no_mtime_def new_template_def)
  show "reg' name \<noteq> None"
    by (rule run_chunk_keeps_entry [OF r]) simp
qed

subsection \<open>The body buffer starts with the lines that create the entry\<close>

lemma parse_lines_acc:
  "parse_lines m acc ls = Some tops \<Longrightarrow> \<exists>ts. tops = rev acc @ ts"
proof (induction ls arbitrary: m acc)
  case Nil
  then show ?case by (auto split: if_splits)
next
  case (Cons l ls)
  show ?case
  proof (cases m)
    case AtTop
    then show ?thesis
      using Cons.prems Cons.IH by (cases l) (fastforce split: if_splits)+
  next
    case (InMain ss)
    then show ?thesis
      using Cons.prems Cons.IH by (cases l) (fastforce split: if_splits)+
  next
    case (AfterIf b)
    then show ?thesis
      using Cons.prems Cons.IH by (cases l) (fastforce split: if_splits)+
  next
    case (InBlock g b ss)
    then show ?thesis
      using Cons.prems Cons.IH by (cases l) (fastforce split: if_splits stmt.splits)+
  next
    case AfterBlock
    then show ?thesis
      using Cons.prems Cons.IH by (cases l) (fastforce split: if_splits)+
  qed
qed

lemma body_header_lines: "body_header name = env_line @ main_lines name"
  by (simp add: body_header_def env_line_def main_lines_def)

lemma lua_load_body:
  "lua_load name (body_header name @ rest) = Some tops \<Longrightarrow> \<exists>ts. tops = TNew # ts"
  using parse_lines_acc [of "InMain []" "[TNew]" _ tops]
  by (auto simp: lua_load_def body_header_lines strip_prefix_def load_lines_def
      split: if_splits option.splits)

subsection \<open>The scanner only appends to its buffers\<close>

lemma body_addstring:
  "prefix h (r_body r) \<Longrightarrow> prefix h (r_body (buf_addstring b s r))"
  by (cases b) (simp_all add: buf_addstring_def)

lemma body_addchar:
  "prefix h (r_body r) \<Longrightarrow> prefix h (r_body (buf_addchar b c r))"
  by (simp add: buf_addchar_def body_addstring)

lemma body_step_code:
  "prefix h (r_body r) \<Longrightarrow> prefix h (r_body (step_code r))"
  by (simp add: step_code_def body_addstring body_addchar)

lemma body_step_expression:
  "prefix h (r_body r) \<Longrightarrow> prefix h (r_body (step_expression r))"
  by (simp add: step_expression_def body_addstring body_addchar)

lemma body_open_print:
  "prefix h (r_body r) \<Longrightarrow> prefix h (r_body (open_print e r))"
  by (cases e) (simp_all add: open_print_def body_addstring)

lemma body_open_format:
  "prefix h (r_body r) \<Longrightarrow> prefix h (r_body (open_format r))"
  by (simp add: open_format_def Let_def body_addstring)

lemma body_open_expression:
  "prefix h (r_body r) \<Longrightarrow> prefix h (r_body (open_expression r))"
  by (simp add: open_expression_def body_open_format body_open_print split: prod.splits)

lemma body_step_output:
  "prefix h (r_body r) \<Longrightarrow> prefix h (r_body (step_output r))"
  by (simp add: step_output_def Let_def skip_space_def body_addstring body_addchar
      body_open_expression body_step_code)

lemma body_step_initial:
  "prefix h (r_body r) \<Longrightarrow> prefix h (r_body (step_initial r))"
  by (simp add: step_initial_def body_step_output body_addstring)

lemma body_step_instruction:
  "prefix h (r_body r) \<Longrightarrow> prefix h (r_body (step_instruction n r))"
  by (simp add: step_instruction_def Let_def instr_include_def instr_escape_def
      instr_block_def instr_endblock_def instr_extends_def body_addstring
      split: prod.splits)

lemma body_reader_step:
  "prefix h (r_body r) \<Longrightarrow> prefix h (r_body (reader_step n r))"
  by (cases "r_state r")
    (simp_all add: reader_step_def body_step_initial body_step_output body_step_code
      body_step_expression body_step_instruction)

lemma body_reader_loop:
  assumes "reader_loop n r = Some y" and "prefix h (r_body r)"
  shows "prefix h (r_body y)"
proof -
  have "prefix h (r_body r) \<longrightarrow> prefix h (r_body y)"
  proof (rule reader_loop.raw_induct
      [where P = "\<lambda>n r y. prefix h (r_body r) \<longrightarrow> prefix h (r_body y)", OF _ assms(1)])
    fix f :: "string \<Rightarrow> reader_st \<Rightarrow> reader_st option" and n r y
    assume ih: "\<And>n r y. f n r = Some y \<Longrightarrow> prefix h (r_body r) \<longrightarrow> prefix h (r_body y)"
      and st: "(if cur (r_p r) = NUL then Some r else f n (reader_step n r)) = Some y"
    show "prefix h (r_body r) \<longrightarrow> prefix h (r_body y)"
    proof (cases "cur (r_p r) = NUL")
      case True
      then show ?thesis using st by simp
    next
      case False
      then have "f n (reader_step n r) = Some y"
        using st by simp
      then show ?thesis
        using ih body_reader_step by blast
    qed
  qed
  then show ?thesis using assms(2) by simp
qed

lemma reader_body_header:
  assumes "reader p n = Some r"
  shows "\<exists>rest. r_body r = body_header n @ rest"
proof -
  obtain y where y: "reader_loop n (reader_init p n) = Some y" "r = reader_finish y"
    using assms by (auto simp: reader_def)
  have "prefix (body_header n) (r_body y)"
    by (rule body_reader_loop [OF y(1)]) (simp add: reader_init_def)
  then have "prefix (body_header n) (r_body r)"
    by (simp add: y(2) reader_finish_def Let_def body_addstring)
  then show ?thesis
    by (auto simp: prefix_def)
qed

subsection \<open>What \<^verbatim>\<open>process_file\<close> changes in the registry\<close>

lemma load_and_run_frame:
  "load_and_run name text reg = Some reg' \<Longrightarrow> d \<noteq> name \<Longrightarrow> reg' d = reg d"
  by (auto simp: load_and_run_def split: option.splits dest: run_chunk_frame)

lemma load_and_run_body:
  assumes "load_and_run name (body_header name @ rest) reg = Some reg'"
  shows "no_mtime reg' name" and "reg' name \<noteq> None"
proof -
  obtain tops where t: "lua_load name (body_header name @ rest) = Some tops"
      "run_chunk name tops reg = Some reg'"
    using assms by (auto simp: load_and_run_def split: option.splits)
  obtain ts where "tops = TNew # ts"
    using lua_load_body [OF t(1)] by blast
  then show "no_mtime reg' name" and "reg' name \<noteq> None"
    using run_chunk_new t(2) by blast+
qed

lemma load_and_run_keeps:
  assumes "load_and_run name text reg = Some reg'"
    and "no_mtime reg name" and "reg name \<noteq> None"
  shows "no_mtime reg' name" and "reg' name \<noteq> None"
  using assms
  by (auto simp: load_and_run_def split: option.splits
      dest: run_chunk_no_mtime run_chunk_keeps_entry)

text \<open>What the two buffers of one template do to the registry.\<close>

lemma compile_one:
  assumes "reader p name = Some r"
    and "load_and_run name (r_body r) reg = Some reg1"
    and "load_and_run name (r_blocks r) reg1 = Some reg2"
  shows "no_mtime reg1 name" and "reg1 name \<noteq> None"
    and "no_mtime reg2 name" and "reg2 name \<noteq> None"
    and "d \<noteq> name \<Longrightarrow> reg1 d = reg d" and "d \<noteq> name \<Longrightarrow> reg2 d = reg d"
proof -
  obtain rest where b: "r_body r = body_header name @ rest"
    using reader_body_header [OF assms(1)] by blast
  show 1: "no_mtime reg1 name" and 2: "reg1 name \<noteq> None"
    using load_and_run_body assms(2) unfolding b by blast+
  show "no_mtime reg2 name" and "reg2 name \<noteq> None"
    using load_and_run_keeps [OF assms(3) 1 2] by blast+
  show "d \<noteq> name \<Longrightarrow> reg1 d = reg d"
    using load_and_run_frame [OF assms(2)] by blast
  then show "d \<noteq> name \<Longrightarrow> reg2 d = reg d"
    using load_and_run_frame [OF assms(3)] by simp
qed

lemma process_file_cached_unchanged:
  "process_file n fs fnam st = (res, st') \<Longrightarrow> d \<noteq> fnam \<Longrightarrow> fst st d \<noteq> None
     \<Longrightarrow> fst st' d = fst st d"
  and process_includes_cached_unchanged:
  "process_includes n fs incs st = (res, st') \<Longrightarrow> fst st d \<noteq> None
     \<Longrightarrow> fst st' d = fst st d"
proof (induction n fs fnam st and n fs incs st arbitrary: res st' and res st'
    rule: process_file_process_includes.induct)
  case (1 fs fnam st)
  then show ?case by simp
next
  case (2 n fs fnam st)
  show ?case
  proof (cases "resolve fs fnam")
    case None
    then show ?thesis using 2(2) by simp
  next
    case (Some f)
    show ?thesis
    proof (cases "content f = []")
      case True
      then show ?thesis using 2(2) Some by simp
    next
      case False
      show ?thesis
      proof (cases "reader (content f) fnam")
        case None
        then show ?thesis using 2(2) Some False by auto
      next
        case rd: (Some r)
        show ?thesis
        proof (cases "scan_defined f r")
          case undef: False
          then show ?thesis using 2(2) Some False rd by auto
        next
          case sd: True
          show ?thesis
          proof (cases "load_and_run fnam (r_body r) (fst st)")
          case None
          then show ?thesis using 2(2) Some False rd sd by auto
        next
          case l1: (Some reg1)
          show ?thesis
          proof (cases "load_and_run fnam (r_blocks r) reg1")
            case None
            then show ?thesis
              using 2(2) Some False rd sd l1 load_and_run_frame [OF l1 2(3)] by auto
          next
            case l2: (Some reg2)
            obtain res2 st2 where pi:
              "process_includes n fs (r_includes r) (reg2, fnam # snd st) = (res2, st2)"
              by (cases "process_includes n fs (r_includes r) (reg2, fnam # snd st)") auto
            have same: "reg2 d = fst st d"
              using compile_one(6) [OF rd l1 l2] 2(3) by simp
            have "fst st2 d = reg2 d"
              using 2(1) [OF Some False rd sd l1 l2 pi] same 2(4) by simp
            moreover have "fst st' d = fst st2 d"
              using 2(2) Some False rd sd l1 l2 pi by (cases res2) auto
            ultimately show ?thesis using same by simp
          qed
        qed
      qed
    qed
  qed
  qed
next
  case (3 n fs st)
  then show ?case by simp
next
  case (4 n fs inc incs st)
  show ?case
  proof (cases "inc \<in> set (snd st)")
    case True
    then show ?thesis using 4(4) by simp
  next
    case nin: False
    show ?thesis
    proof (cases "fst st inc = None")
      case reg: False
      have "process_includes n fs incs st = (res, st')"
        using 4(4) nin reg by (simp del: not_None_eq)
      then show ?thesis
        using 4(3) [OF nin reg _ 4(5)] by simp
    next
      case True
      obtain res1 st1 where pf: "process_file n fs inc st = (res1, st1)"
        by (cases "process_file n fs inc st") auto
      have ne: "d \<noteq> inc"
        using True 4(5) by auto
      have s1: "fst st1 d = fst st d"
        using 4(1) [OF nin True pf ne 4(5)] .
      show ?thesis
      proof (cases res1)
        case None
        have "process_includes n fs incs st1 = (res, st')"
          using 4(4) nin True pf None by simp
        then have "fst st' d = fst st1 d"
          using 4(2) [OF nin True pf [symmetric] None] s1 4(5) by simp
        then show ?thesis using s1 by simp
      next
        case (Some e)
        then have "st' = st1"
          using 4(4) nin True pf by simp
        then show ?thesis using s1 by simp
      qed
    qed
  qed
qed

lemma entry_without_mtimeI:
  "no_mtime reg d \<Longrightarrow> reg d \<noteq> None \<Longrightarrow> entry_without_mtime reg d"
  by (auto simp: no_mtime_def entry_without_mtime_def)

lemma entry_without_mtime_eq:
  "reg' d = reg d \<Longrightarrow> entry_without_mtime reg' d = entry_without_mtime reg d"
  by (simp add: entry_without_mtime_def)

lemma process_file_no_mtime:
  "process_file n fs fnam st = (res, st')
     \<Longrightarrow> fst st' d = fst st d \<or> entry_without_mtime (fst st') d"
  and process_includes_no_mtime:
  "process_includes n fs incs st = (res, st')
     \<Longrightarrow> fst st' d = fst st d \<or> entry_without_mtime (fst st') d"
proof (induction n fs fnam st and n fs incs st arbitrary: res st' and res st'
    rule: process_file_process_includes.induct)
  case (1 fs fnam st)
  then show ?case by simp
next
  case (2 n fs fnam st)
  show ?case
  proof (cases "resolve fs fnam")
    case None
    then show ?thesis using 2(2) by simp
  next
    case (Some f)
    show ?thesis
    proof (cases "content f = []")
      case True
      then show ?thesis using 2(2) Some by simp
    next
      case False
      show ?thesis
      proof (cases "reader (content f) fnam")
        case None
        then show ?thesis using 2(2) Some False by auto
      next
        case rd: (Some r)
        show ?thesis
        proof (cases "scan_defined f r")
          case undef: False
          then show ?thesis using 2(2) Some False rd by auto
        next
          case sd: True
          show ?thesis
          proof (cases "load_and_run fnam (r_body r) (fst st)")
          case None
          then show ?thesis using 2(2) Some False rd sd by auto
        next
          case l1: (Some reg1)
          obtain rest where b: "r_body r = body_header fnam @ rest"
            using reader_body_header [OF rd] by blast
          have g1: "reg1 d = fst st d \<or> entry_without_mtime reg1 d"
          proof (cases "d = fnam")
            case True
            then show ?thesis
              using load_and_run_body [OF l1 [unfolded b]] entry_without_mtimeI by blast
          next
            case False
            then show ?thesis
              using load_and_run_frame [OF l1] by simp
          qed
          show ?thesis
          proof (cases "load_and_run fnam (r_blocks r) reg1")
            case None
            then show ?thesis
              using 2(2) Some False rd sd l1 g1 by auto
          next
            case l2: (Some reg2)
            obtain res2 st2 where pi:
              "process_includes n fs (r_includes r) (reg2, fnam # snd st) = (res2, st2)"
              by (cases "process_includes n fs (r_includes r) (reg2, fnam # snd st)") auto
            have g2: "reg2 d = fst st d \<or> entry_without_mtime reg2 d"
            proof (cases "d = fnam")
              case True
              then show ?thesis
                using compile_one(3,4) [OF rd l1 l2] entry_without_mtimeI by blast
            next
              case False
              then show ?thesis
                using compile_one(6) [OF rd l1 l2] by simp
            qed
            have "fst st2 d = reg2 d \<or> entry_without_mtime (fst st2) d"
              using 2(1) [OF Some False rd sd l1 l2 pi] by simp
            then have g3: "fst st2 d = fst st d \<or> entry_without_mtime (fst st2) d"
              using g2 entry_without_mtime_eq [of "fst st2" d reg2] by auto
            have "fst st' d = fst st2 d"
              using 2(2) Some False rd sd l1 l2 pi by (cases res2) auto
            then show ?thesis
              using g3 entry_without_mtime_eq [of "fst st'" d "fst st2"] by auto
          qed
        qed
      qed
    qed
  qed
  qed
next
  case (3 n fs st)
  then show ?case by simp
next
  case (4 n fs inc incs st)
  show ?case
  proof (cases "inc \<in> set (snd st)")
    case True
    then show ?thesis using 4(4) by simp
  next
    case nin: False
    show ?thesis
    proof (cases "fst st inc = None")
      case reg: False
      have "process_includes n fs incs st = (res, st')"
        using 4(4) nin reg by (simp del: not_None_eq)
      then show ?thesis
        using 4(3) [OF nin reg] by simp
    next
      case True
      obtain res1 st1 where pf: "process_file n fs inc st = (res1, st1)"
        by (cases "process_file n fs inc st") auto
      have s1: "fst st1 d = fst st d \<or> entry_without_mtime (fst st1) d"
        using 4(1) [OF nin True pf] .
      show ?thesis
      proof (cases res1)
        case None
        have "process_includes n fs incs st1 = (res, st')"
          using 4(4) nin True pf None by simp
        then have "fst st' d = fst st1 d \<or> entry_without_mtime (fst st') d"
          using 4(2) [OF nin True pf [symmetric] None] by simp
        then show ?thesis
          using s1 entry_without_mtime_eq [of "fst st'" d "fst st1"] by auto
      next
        case (Some e)
        then have "st' = st1"
          using 4(4) nin True pf by simp
        then show ?thesis using s1 by simp
      qed
    qed
  qed
qed

lemma process_file_ihead:
  "process_file n fs fnam st = (None, st') \<Longrightarrow> snd st' = snd st"
  and process_includes_ihead:
  "process_includes n fs incs st = (None, st') \<Longrightarrow> snd st' = snd st"
proof (induction n fs fnam st and n fs incs st arbitrary: st' and st'
    rule: process_file_process_includes.induct)
  case (1 fs fnam st)
  then show ?case by simp
next
  case (2 n fs fnam st)
  from 2(2) obtain f r reg1 reg2 st2 where
    h: "resolve fs fnam = Some f" "content f \<noteq> []" "reader (content f) fnam = Some r"
      "load_and_run fnam (r_body r) (fst st) = Some reg1"
      "load_and_run fnam (r_blocks r) reg1 = Some reg2"
      "process_includes n fs (r_includes r) (reg2, fnam # snd st) = (None, st2)"
      "st' = (fst st2, tl (snd st2))"
    and sd: "scan_defined f r"
    by (auto split: option.splits if_splits prod.splits)
  have "snd st2 = fnam # snd st"
    using 2(1) [OF h(1-3) sd h(4-6)] by simp
  then show ?case using h(7) by simp
next
  case (3 n fs st)
  then show ?case by simp
next
  case (4 n fs inc incs st)
  have nin: "inc \<notin> set (snd st)"
    using 4(4) by (auto split: if_splits)
  show ?case
  proof (cases "fst st inc = None")
    case reg: False
    have "process_includes n fs incs st = (None, st')"
      using 4(4) nin reg by (simp del: not_None_eq)
    then show ?thesis
      using 4(3) [OF nin reg] by simp
  next
    case True
    obtain st1 where pf: "process_file n fs inc st = (None, st1)"
      and pi: "process_includes n fs incs st1 = (None, st')"
      using 4(4) nin True by (auto split: option.splits prod.splits)
    have "snd st1 = snd st"
      using 4(1) [OF nin True pf] .
    moreover have "snd st' = snd st1"
      using 4(2) [OF nin True pf [symmetric] refl pi] .
    ultimately show ?thesis by simp
  qed
qed

subsection \<open>Entries of dependencies\<close>

lemma render_file_context:
  "snd (render_file fuel fs ctx fnam data) = snd (render_file_prepare fuel fs ctx fnam)"
  by (auto simp: render_file_def split: prod.splits option.splits sum.splits)

lemma check_mtime_other:
  "check_mtime reg fnam mt = Inr reg0 \<Longrightarrow> d \<noteq> fnam \<Longrightarrow> reg0 d = reg d"
  by (auto simp: check_mtime_def split: option.splits if_splits)

lemma prepare_no_mtime:
  assumes "render_file_prepare fuel fs ctx fnam = (res, ctx')"
    and "uservalue ctx = Some reg" and "uservalue ctx' = Some reg'"
    and "d \<noteq> fnam" and "reg' d \<noteq> reg d"
  shows "entry_without_mtime reg' d"
proof -
  obtain sb where sb: "fs fnam = Some sb"
    using assms by (auto simp: render_file_prepare_def split: option.splits)
  obtain reg0 where c: "check_mtime reg fnam (st_mtime sb) = Inr reg0"
    using assms sb by (auto simp: render_file_prepare_def split: sum.splits)
  have r0: "reg0 d = reg d"
    using check_mtime_other [OF c assms(4)] .
  show ?thesis
  proof (cases "reg0 fnam = None")
    case False
    then have "reg' = reg0"
      using assms(1-3) sb c by (auto simp: render_file_prepare_def)
    then show ?thesis using r0 assms(5) by simp
  next
    case True
    obtain r st where pf: "process_file fuel fs fnam (reg0, ihead ctx) = (r, st)"
      by (cases "process_file fuel fs fnam (reg0, ihead ctx)") auto
    have "reg' d = fst st d"
      using assms(1-4) sb c True pf
      by (auto simp: render_file_prepare_def split: option.splits)
    moreover have "fst st d = reg0 d \<or> entry_without_mtime (fst st) d"
      using process_file_no_mtime [OF pf] by simp
    ultimately show ?thesis
      using r0 assms(5) entry_without_mtime_eq [of reg' d "fst st"] by auto
  qed
qed

lemma render_file_no_mtime:
  assumes "fs d = Some sb" and "uservalue ctx = Some reg" and "entry_without_mtime reg d"
  shows "render_file fuel fs ctx d data = (Inl integer_expected, ctx)"
  using assms
  by (auto simp: render_file_def render_file_prepare_def check_mtime_def
      entry_without_mtime_def split: option.splits)

text \<open>
  Claim C10. An entry that a \<^verbatim>\<open>renderFile\<close> call creates or changes for a template
  other than the one it was asked for (a template compiled as a dependency, reached by
  \<^verbatim>\<open>include\<close> or \<^verbatim>\<open>extends\<close>) carries no \<^verbatim>\<open>mtime\<close>. Hence a later \<^verbatim>\<open>renderFile\<close>
  of that path, whatever the files are then, raises the error of the integer check on
  the missing \<^verbatim>\<open>mtime\<close> and leaves the context as it was: the cached entry is neither
  rendered nor compiled again.
\<close>

theorem dependency_entry_has_no_mtime:
  assumes "render_file fuel fs ctx fnam data = (res, ctx')"
    and "uservalue ctx = Some reg" and "uservalue ctx' = Some reg'"
    and "d \<noteq> fnam" and "reg' d \<noteq> reg d"
    and "fs' d = Some sb"
  shows "entry_without_mtime reg' d
         \<and> render_file fuel' fs' ctx' d data' = (Inl integer_expected, ctx')"
proof -
  have "snd (render_file_prepare fuel fs ctx fnam) = ctx'"
    using assms(1) render_file_context [of fuel fs ctx fnam data] by simp
  then obtain r where "render_file_prepare fuel fs ctx fnam = (r, ctx')"
    by (cases "render_file_prepare fuel fs ctx fnam") auto
  then have e: "entry_without_mtime reg' d"
    using prepare_no_mtime assms(2-5) by blast
  show ?thesis
    using e render_file_no_mtime [of fs' d sb ctx' reg', OF assms(6,3) e] by simp
qed

theorem dependency_entry_has_no_mtime_witness:
  "render_file 3 fs_greeting template_context ''child'' Map.empty
     = (Inr ''Hello'', \<lparr>ihead = [], debug = False, uservalue = Some reg_greeting\<rparr>)
   \<and> ''base'' \<noteq> ''child''
   \<and> reg_greeting ''base'' \<noteq> Map.empty ''base''
   \<and> map_option st_mtime (fs_greeting ''base'') = Some 1
   \<and> entry_without_mtime reg_greeting ''base''
   \<and> render_file 3 fs_greeting \<lparr>ihead = [], debug = False, uservalue = Some reg_greeting\<rparr>
        ''base'' Map.empty
       = (Inl integer_expected, \<lparr>ihead = [], debug = False, uservalue = Some reg_greeting\<rparr>)"
proof -
  have 1: "render_file 3 fs_greeting template_context ''child'' Map.empty
     = (Inr ''Hello'', \<lparr>ihead = [], debug = False, uservalue = Some reg_greeting\<rparr>)"
    by (simp add: render_file_def prepare_child)
      (simp add: reg_greeting_def rn_defs eval_nat_numeral)
  have 2: "uservalue template_context = Some Map.empty"
    by (simp add: template_context_def)
  have 3: "reg_greeting ''base'' \<noteq> Map.empty ''base''"
    by (simp add: reg_greeting_def)
  have 4: "fs_greeting ''base'' = Some \<lparr>st_mtime = 1, content = ''<%! block greeting %>Hi<%! endblock %>''\<rparr>"
    by (simp add: fs_greeting_def)
  show ?thesis
    using dependency_entry_has_no_mtime
      [of 3 fs_greeting template_context "''child''" Map.empty "Inr ''Hello''"
        "\<lparr>ihead = [], debug = False, uservalue = Some reg_greeting\<rparr>"
        Map.empty reg_greeting "''base''" fs_greeting _ 3 Map.empty, OF 1 2 _ _ 3 4]
      1 3 4
    by simp
qed

subsection \<open>The finalizer of a context\<close>

lemma context_field_clear:
  "(context_field name = Some (MFunction c_render_clear)) = (name = ''__gc'')"
  by (simp add: context_field_def context_metatable_def render_methods_def)

lemma render_file_cleared:
  "render_file fuel fs (render_clear ctx) fnam data =
     (Inl (if fs fnam = None then cant_stat fnam else index_nil), render_clear ctx)"
  by (auto simp: render_file_def render_file_prepare_def render_clear_def
      split: option.splits)

text \<open>
  Claim C9, as the code has it. A context has no method \<^verbatim>\<open>clear\<close>: the methods
  registered for it are \<^verbatim>\<open>renderFile\<close> and \<^verbatim>\<open>debug\<close>, and \<^verbatim>\<open>render_clear\<close> is
  reached under the name \<^verbatim>\<open>__gc\<close> only, as the finalizer of the context. It sets the
  user value of the context to \<^verbatim>\<open>nil\<close>, which drops the whole container (the registry
  and the helpers with it). \<^verbatim>\<open>renderFile\<close> on the context after that raises an error,
  renders nothing and compiles nothing.
\<close>

theorem render_clear_is_finalizer:
  "map fst render_methods = [''renderFile'', ''debug'']
   \<and> (context_field name = Some (MFunction c_render_clear)) = (name = ''__gc'')
   \<and> uservalue (render_clear ctx) = None
   \<and> render_file fuel fs (render_clear ctx) fnam data =
        (Inl (if fs fnam = None then cant_stat fnam else index_nil), render_clear ctx)"
  by (simp add: context_field_clear render_file_cleared)
    (simp add: render_methods_def render_clear_def)

text \<open>
  The claim as stated fails: there is no field \<^verbatim>\<open>clear\<close> to call, and after
  \<^verbatim>\<open>render_clear\<close> the base template of the example, which rendered to \<^verbatim>\<open>Hi\<close> before,
  does not render again.
\<close>

theorem clear_then_render_counterexample:
  "context_field ''clear'' = None
   \<and> fst (render_file 3 fs_greeting template_context ''base'' Map.empty) = Inr ''Hi''
   \<and> fst (render_file 3 fs_greeting
            (render_clear (snd (render_file 3 fs_greeting template_context ''base'' Map.empty)))
            ''base'' Map.empty) = Inl index_nil"
  by (simp add: render_base render_file_cleared)
    (simp add: context_field_def context_metatable_def render_methods_def fs_greeting_def)

subsection \<open>End of input inside a directive\<close>

text \<open>
  Claim C7 does not hold of the code. At the end of input inside raw code the scanner
  sets its state to \<^verbatim>\<open>s_error\<close> and still hands over both buffers, with the text of
  the unclosed region in the body; nothing reads the state. An unclosed instruction is
  skipped to the end of input and the scan ends in \<^verbatim>\<open>s_terminate\<close>: the template
  \<^verbatim>\<open>Hi<%! foo\<close> compiles and renders to \<^verbatim>\<open>Hi\<close>.
\<close>

theorem unclosed_directive_is_no_error:
  "map_option (\<lambda>r. (r_state r, r_body r)) (reader ''<% x = y '' ''t'')
     = Some (s_error, body_header ''t'' @ ''x = y end'' @ [nl])
   \<and> map_option r_state (reader ''Hi<%! foo'' ''t'') = Some s_terminate
   \<and> fst (render_file 3 fs_unclosed template_context ''t'' Map.empty) = Inr ''Hi''"
  by (simp add: fs_unclosed_def rd_defs lua_defs rn_defs eval_nat_numeral)

subsection \<open>Literal text\<close>

text \<open>
  Claim C8 does not hold of the code. Literal text is copied between \<^verbatim>\<open>print([[\<close> and
  \<^verbatim>\<open>]])\<close>. For the text \<^verbatim>\<open>a]]b\<close> the long bracket that Lua reads ends after \<^verbatim>\<open>a\<close>,
  and what follows it is not the closing parenthesis. A newline at the start of the
  text is not part of the long string: the template made of a newline and \<^verbatim>\<open>Hi\<close>
  renders to \<^verbatim>\<open>Hi\<close>.
\<close>

theorem literal_text_not_verbatim:
  "map_option r_body (reader ''a]]b'' ''t'')
     = Some (body_header ''t'' @ ''print([[a]]b]])'' @ [nl] @ ''end'' @ [nl])
   \<and> long_bracket [] ''a]]b]])'' = Some (''a'', ''b]])'')
   \<and> fst (render_file 3 fs_newline template_context ''t'' Map.empty) = Inr ''Hi''"
  by (simp add: fs_newline_def rd_defs lua_defs rn_defs eval_nat_numeral)

subsection \<open>The order of the dependencies\<close>

lemma includes_addstring [simp]: "r_includes (buf_addstring b s r) = r_includes r"
  by (cases b) (simp_all add: buf_addstring_def)

lemma includes_addchar [simp]: "r_includes (buf_addchar b c r) = r_includes r"
  by (simp add: buf_addchar_def)

lemma includes_step_code [simp]: "r_includes (step_code r) = r_includes r"
  by (simp add: step_code_def)

lemma includes_step_expression [simp]: "r_includes (step_expression r) = r_includes r"
  by (simp add: step_expression_def)

lemma includes_open_expression [simp]: "r_includes (open_expression r) = r_includes r"
  by (simp add: open_expression_def open_format_def open_print_def Let_def
      split: prod.splits lt_escapes.splits)

lemma includes_step_output [simp]: "r_includes (step_output r) = r_includes r"
  by (simp add: step_output_def Let_def skip_space_def)

lemma includes_step_initial [simp]: "r_includes (step_initial r) = r_includes r"
  by (simp add: step_initial_def)

lemma suffix_add_include: "suffix incs (add_include f incs)"
  by (simp add: add_include_def suffix_ConsI)

lemma includes_step_instruction:
  "suffix (r_includes r) (r_includes (step_instruction n r))"
  by (simp add: step_instruction_def Let_def instr_include_def instr_escape_def
      instr_block_def instr_endblock_def instr_extends_def suffix_add_include
      split: prod.splits)

lemma includes_reader_step: "suffix (r_includes r) (r_includes (reader_step n r))"
  by (cases "r_state r") (simp_all add: reader_step_def includes_step_instruction)

lemma includes_reader_loop:
  assumes "reader_loop n r = Some y"
  shows "suffix (r_includes r) (r_includes y)"
proof (rule reader_loop.raw_induct
    [where P = "\<lambda>n r y. suffix (r_includes r) (r_includes y)", OF _ assms])
  fix f :: "string \<Rightarrow> reader_st \<Rightarrow> reader_st option" and n r y
  assume ih: "\<And>n r y. f n r = Some y \<Longrightarrow> suffix (r_includes r) (r_includes y)"
    and st: "(if cur (r_p r) = NUL then Some r else f n (reader_step n r)) = Some y"
  show "suffix (r_includes r) (r_includes y)"
  proof (cases "cur (r_p r) = NUL")
    case True
    then show ?thesis using st by simp
  next
    case False
    then have "f n (reader_step n r) = Some y"
      using st by simp
    then show ?thesis
      using ih includes_reader_step suffix_order.trans by blast
  qed
qed

subsection \<open>Cached dependencies\<close>

text \<open>
  The steps of the walk. The names that the scanner has recorded at any point of the
  scan stay, in their order, at the end of the list it returns: a name found later
  stands before them, and the orchestrator takes the list from its head. For each name
  it first fails with a recursion error when the name is on the active stack,
  registered or not; otherwise it skips the name whenever the registry holds an entry
  for it, and compiles it only when the registry holds none. No modification time is
  looked at: a compile of a template leaves the entry of every other registered
  template as it was.
\<close>

lemma cached_dependency_is_skipped:
  "(reader_loop t r = Some y \<longrightarrow> suffix (r_includes r) (r_includes y))
   \<and> (d \<in> set ih \<longrightarrow>
        process_includes n fs (d # ds) (reg, ih) = (Some (recursion_detected d), (reg, ih)))
   \<and> (d \<notin> set ih \<longrightarrow> reg d \<noteq> None \<longrightarrow>
        process_includes n fs (d # ds) (reg, ih) = process_includes n fs ds (reg, ih))
   \<and> (d \<notin> set ih \<longrightarrow> reg d = None \<longrightarrow>
        process_includes n fs (d # ds) (reg, ih) =
          (case process_file n fs d (reg, ih) of
             (None, st') \<Rightarrow> process_includes n fs ds st'
           | (Some e, st') \<Rightarrow> (Some e, st')))
   \<and> (process_file n fs fnam (reg, ih) = (res, reg', ih') \<longrightarrow> d \<noteq> fnam \<longrightarrow> reg d \<noteq> None \<longrightarrow>
        reg' d = reg d)"
proof -
  have "process_file n fs fnam (reg, ih) = (res, reg', ih') \<longrightarrow> d \<noteq> fnam \<longrightarrow> reg d \<noteq> None \<longrightarrow>
        reg' d = reg d"
    using process_file_cached_unchanged [of n fs fnam "(reg, ih)" res "(reg', ih')" d]
    by simp
  moreover have "d \<notin> set ih \<longrightarrow> reg d \<noteq> None \<longrightarrow>
        process_includes n fs (d # ds) (reg, ih) = process_includes n fs ds (reg, ih)"
    by (simp del: not_None_eq)
  ultimately show ?thesis
    using includes_reader_loop by (simp del: not_None_eq)
qed

lemma render_old:
  "render_file 3 fs_old template_context ''b'' Map.empty
     = (Inr ''old'', \<lparr>ihead = [], debug = False, uservalue = Some reg_old\<rparr>)"
  by (simp add: fs_old_def reg_old_def rd_defs lua_defs rn_defs eval_nat_numeral)

text \<open>
  Claim C6 does not hold of the code. The template \<^verbatim>\<open>b\<close> is cached with the
  modification time 6 and the text \<^verbatim>\<open>old\<close>; its file now has the modification time 7
  and the text \<^verbatim>\<open>new\<close>. Rendering \<^verbatim>\<open>a\<close>, which includes \<^verbatim>\<open>b\<close>, does not compile \<^verbatim>\<open>b\<close>
  again and writes \<^verbatim>\<open>old\<close>: \<^verbatim>\<open>render_file\<close> compares modification times for the path
  it is asked for, \<^verbatim>\<open>process_file\<close> only asks whether a dependency is registered. And
  of two includes whose files are missing, the second is the one the compile stops at:
  the dependencies are taken in the reverse of the order of discovery.
\<close>

theorem stale_dependency_is_served:
  "render_file 3 fs_old template_context ''b'' Map.empty
     = (Inr ''old'', \<lparr>ihead = [], debug = False, uservalue = Some reg_old\<rparr>)
   \<and> map_option mtime (reg_old ''b'') = Some (Some 6)
   \<and> map_option st_mtime (fs_new ''b'') = Some 7
   \<and> map_option content (fs_new ''b'') = Some ''new''
   \<and> fst (render_file 3 fs_new \<lparr>ihead = [], debug = False, uservalue = Some reg_old\<rparr>
            ''a'' Map.empty) = Inr ''old''
   \<and> map_option r_includes (reader two_includes ''t'') = Some [''second'', ''first'']
   \<and> fst (process_file 2 fs_two ''t'' (Map.empty, [])) = Some (cant_stat ''second'')"
  by (simp add: render_old)
    (simp add: fs_new_def reg_old_def fs_two_def two_includes_def rd_defs lua_defs rn_defs
      eval_nat_numeral)

subsection \<open>Scanning an expression\<close>

lemma reader_loop_step:
  "cur (r_p r) \<noteq> NUL \<Longrightarrow> reader_loop n r = reader_loop n (reader_step n r)"
  by (subst reader_loop.simps) simp

lemma reader_loop_done:
  "r_p r = [] \<Longrightarrow> reader_loop n r = Some r"
  by (subst reader_loop.simps) (simp add: cur_def)

lemma buf_addstring_twice:
  "buf_addstring b s2 (buf_addstring b s1 r) = buf_addstring b (s1 @ s2) r"
  by (cases b) (simp_all add: buf_addstring_def)

lemma buf_addstring_fields [simp]:
  "r_p (buf_addstring b s r) = r_p r"
  "r_state (buf_addstring b s r) = r_state r"
  "r_escape (buf_addstring b s r) = r_escape r"
  "r_extends (buf_addstring b s r) = r_extends r"
  "r_block (buf_addstring b s r) = r_block r"
  "r_output (buf_addstring b s r) = r_output r"
  "r_cb (buf_addstring b s r) = r_cb r"
  "r_fnam (buf_addstring b s r) = r_fnam r"
  "r_b (buf_addstring b s r) = r_b r"
  by (cases b; simp add: buf_addstring_def)+

lemma buf_addstring_upd [simp]:
  "buf_addstring b s (r\<lparr>r_p := p\<rparr>) = (buf_addstring b s r)\<lparr>r_p := p\<rparr>"
  "buf_addstring b s (r\<lparr>r_state := st\<rparr>) = (buf_addstring b s r)\<lparr>r_state := st\<rparr>"
  "buf_addstring b s (r\<lparr>r_cb := k\<rparr>) = (buf_addstring b s r)\<lparr>r_cb := k\<rparr>"
  by (cases b; simp add: buf_addstring_def)+

lemma not_starts_close_append:
  "\<not> starts ''%>'' (c # cs) \<Longrightarrow> \<not> starts ''%>'' (c # cs @ ''%>'' @ rest)"
  by (cases cs) (auto simp: starts_def)

lemma expression_copy:
  "expr_text e \<Longrightarrow> r_state r = s_expression \<Longrightarrow> r_p r = e @ ''%>'' @ rest \<Longrightarrow>
     reader_loop n r = reader_loop n ((buf_addstring (r_b r) e r)\<lparr>r_p := ''%>'' @ rest\<rparr>)"
proof (induction e arbitrary: r)
  case Nil
  have "buf_addstring (r_b r) [] r = r"
    by (cases "r_b r") (simp_all add: buf_addstring_def)
  moreover have "r\<lparr>r_p := ''%>'' @ rest\<rparr> = r"
    using Nil by simp
  ultimately show ?case by simp
next
  case (Cons c e)
  let ?r' = "(buf_addstring (r_b r) [c] r)\<lparr>r_p := e @ ''%>'' @ rest\<rparr>"
  have ns: "\<not> starts ''%>'' (r_p r)"
    using Cons.prems not_starts_close_append [of c e rest] by simp
  have c: "cur (r_p r) = c" "c \<noteq> NUL"
    using Cons.prems by (simp_all add: cur_def)
  have "reader_step n r = ?r'"
    using Cons.prems(2,3) ns
    by (simp add: reader_step_def step_expression_def buf_addchar_def cur_def next_char_def)
  then have "reader_loop n r = reader_loop n ?r'"
    using reader_loop_step [of r n] c by simp
  also have "\<dots> = reader_loop n ((buf_addstring (r_b ?r') e ?r')\<lparr>r_p := ''%>'' @ rest\<rparr>)"
    using Cons.prems by (intro Cons.IH) simp_all
  also have "(buf_addstring (r_b ?r') e ?r')\<lparr>r_p := ''%>'' @ rest\<rparr>
      = (buf_addstring (r_b r) (c # e) r)\<lparr>r_p := ''%>'' @ rest\<rparr>"
    by (simp add: buf_addstring_twice)
  finally show ?case .
qed

lemma expr_text_dropWhile: "expr_text e \<Longrightarrow> expr_text (dropWhile P e)"
  by (induction e) simp_all

lemma skip_space_expr:
  "dropWhile isspace (CHR '' '' # e @ ''%>'' @ rest) = dropWhile isspace e @ ''%>'' @ rest"
proof -
  have "dropWhile isspace (e @ ''%>'' @ rest) = dropWhile isspace e @ ''%>'' @ rest"
    by (induction e) (simp_all add: isspace_def)
  then show ?thesis by (simp add: isspace_def)
qed

lemma open_print_eq:
  "open_print m r =
     (buf_addstring (r_b r) (print_open m) r)\<lparr>r_cb := r_cb r + (if m = e_none then 0 else 1)\<rparr>"
  by (cases m) (simp_all add: open_print_def print_open_def)

lemma print_close_eq:
  "replicate (if m = e_none then 0 else 1) CHR '')'' @ CHR '')'' # [nl] = print_close m"
  by (cases m) (simp_all add: print_close_def)

lemma expression_directive:
  assumes st: "r_state r = s_initial" and out: "\<not> r_output r" and cb: "r_cb r = 0"
    and e: "expr_text e"
    and p: "r_p r = ''<%='' @ tg @ '' '' @ e @ ''%>'' @ rest"
    and mt: "mode_tag (r_escape r) (tg @ '' '' @ e @ ''%>'' @ rest) = (m, '' '' @ e @ ''%>'' @ rest)"
  shows "reader_loop n r =
           reader_loop n
             ((buf_addstring (r_b r) (print_open m @ dropWhile isspace e @ print_close m) r)
                \<lparr>r_p := rest\<rparr>)"
proof -
  let ?e = "dropWhile isspace e"
  let ?k = "if m = e_none then 0 else (1::nat)"
  let ?r1 = "(buf_addstring (r_b r) (print_open m) r)
      \<lparr>r_state := s_expression, r_cb := ?k, r_p := ?e @ ''%>'' @ rest\<rparr>"
  let ?r2 = "(buf_addstring (r_b r) (print_open m @ ?e) r)
      \<lparr>r_state := s_expression, r_cb := ?k, r_p := ''%>'' @ rest\<rparr>"
  let ?r3 = "(buf_addstring (r_b r) (print_open m @ ?e @ print_close m) r)
      \<lparr>r_state := s_initial, r_cb := 0, r_p := rest\<rparr>"
  have s1: "reader_step n r = ?r1"
    using st out cb p mt skip_space_expr [of e rest]
    by (simp add: reader_step_def step_initial_def step_output_def starts_def cur_def
        open_expression_def open_print_eq open_format_def skip_space_def Let_def)
  have "reader_loop n r = reader_loop n ?r1"
    using reader_loop_step [of r n] p s1 by (simp add: cur_def)
  also have "\<dots> = reader_loop n ((buf_addstring (r_b ?r1) ?e ?r1)\<lparr>r_p := ''%>'' @ rest\<rparr>)"
    using expr_text_dropWhile [OF e] by (intro expression_copy) simp_all
  also have "(buf_addstring (r_b ?r1) ?e ?r1)\<lparr>r_p := ''%>'' @ rest\<rparr> = ?r2"
    by (simp add: buf_addstring_twice)
  also have "reader_loop n ?r2 = reader_loop n (reader_step n ?r2)"
    by (rule reader_loop_step) (simp add: cur_def)
  also have "reader_step n ?r2 = ?r3"
    using print_close_eq [of m]
    by (simp add: reader_step_def step_expression_def starts_def buf_addstring_twice)
  also have "?r3 = (buf_addstring (r_b r) (print_open m @ ?e @ print_close m) r)\<lparr>r_p := rest\<rparr>"
    using st cb by (cases r) (simp add: buf_addstring_def split: buf_sel.splits)
  finally show ?thesis .
qed

lemma mode_tag_tagged:
  "mode_tag a (tag_of m @ CHR '' '' # s) = (m, CHR '' '' # s)"
  by (cases m) (simp_all add: mode_tag_def tag_of_def starts_def)

lemma mode_tag_untagged:
  "mode_tag a (CHR '' '' # s) = (a, CHR '' '' # s)"
  by (simp add: mode_tag_def starts_def)

text \<open>
  What the scanner makes of a mode tag that stands right after \<^verbatim>\<open><%=\<close>: the expression
  is compiled into a print of the mode's escape helper applied to the expression text,
  whatever the ambient mode is, and the ambient mode stays as it was. After
  \<^verbatim>\<open><%! escape latex %>\<close>, the expression tagged \<open>m\<close> is printed in the mode \<open>m\<close> and the
  untagged expression after it in the mode latex.
\<close>

lemma mode_tag_overrides_once:
  assumes "expr_text e1" and "expr_text e2"
  shows "map_option (\<lambda>r. (r_state r, r_blocks r, r_body r))
           (reader (''<%! escape latex %>'' @ ''<%='' @ tag_of m @ '' '' @ e1 @ ''%>''
                    @ ''<%= '' @ e2 @ ''%>'') t)
         = Some (s_terminate, blocks_header,
                 body_header t
                 @ print_open m @ dropWhile isspace e1 @ print_close m
                 @ print_open e_latex @ dropWhile isspace e2 @ print_close e_latex
                 @ ''end'' @ [nl])"
proof -
  let ?Y = "''<%= '' @ e2 @ ''%>''"
  let ?X = "''<%='' @ tag_of m @ '' '' @ e1 @ ''%>'' @ ?Y"
  let ?T = "''<%! escape latex %>'' @ ?X"
  let ?r0 = "reader_init ?T t"
  let ?ra = "?r0\<lparr>r_state := s_instruction, r_p := ''escape latex %>'' @ ?X\<rparr>"
  let ?rb = "?r0\<lparr>r_escape := e_latex, r_p := ?X\<rparr>"
  let ?rc = "(buf_addstring (r_b ?rb)
                (print_open m @ dropWhile isspace e1 @ print_close m) ?rb)\<lparr>r_p := ?Y\<rparr>"
  let ?rd = "(buf_addstring (r_b ?rc)
                (print_open e_latex @ dropWhile isspace e2 @ print_close e_latex) ?rc)
              \<lparr>r_p := []\<rparr>"
  have "reader_step t ?r0 = ?ra"
    by (simp add: reader_init_def reader_step_def step_initial_def step_output_def
        starts_def cur_def skip_space_def isspace_def Let_def)
  then have "reader_loop t ?r0 = reader_loop t ?ra"
    using reader_loop_step [of ?r0 t] by (simp add: reader_init_def cur_def)
  also have "\<dots> = reader_loop t (reader_step t ?ra)"
    by (rule reader_loop_step) (simp add: cur_def)
  also have "reader_step t ?ra = ?rb"
    by (simp add: reader_init_def reader_step_def step_instruction_def instr_escape_def
        starts_def isspace_def Let_def)
  also have "reader_loop t ?rb = reader_loop t ?rc"
    using assms(1) mode_tag_tagged
    by (intro expression_directive [where tg = "tag_of m" and e = e1])
      (simp_all add: reader_init_def)
  also have "\<dots> = reader_loop t ?rd"
    using assms(2) mode_tag_untagged
    by (intro expression_directive [where tg = "[]" and e = e2 and rest = "[]", simplified])
      (simp_all add: reader_init_def)
  also have "\<dots> = Some ?rd"
    by (rule reader_loop_done) simp
  finally have "reader ?T t = Some (reader_finish ?rd)"
    by (simp add: reader_def)
  then show ?thesis
    by (simp add: reader_finish_def reader_init_def buf_addstring_def Let_def)
qed

text \<open>
  Claim C4 does not hold of the code. For \<^verbatim>\<open><%=html name %>\<close> the scanner generates
  \<^verbatim>\<open>print(escape_html(name ))\<close>, but no routine \<^verbatim>\<open>escape_html\<close> exists: the environment
  of a render holds the data and the four names that \<^verbatim>\<open>render_template\<close> stores in it,
  and \<^verbatim>\<open>lt_escape\<close> is called from nowhere. With the data \<^verbatim>\<open>name = "<b>"\<close> the render
  raises an error and writes nothing; so does an untagged expression under
  \<^verbatim>\<open><%! escape html %>\<close>. In \<^verbatim>\<open><%= html name %>\<close>, as the specification spells it, the tag
  does not stand right after \<^verbatim>\<open>=\<close> and is taken for a part of the expression. And a tag
  is recognised by its first letters alone: of \<^verbatim>\<open><%=nonempty %>\<close> the scanner takes
  \<^verbatim>\<open>none\<close> for the tag and \<^verbatim>\<open>mpty\<close> for the expression.
\<close>

theorem escape_helper_is_not_bound:
  "map_option r_body (reader ''<%=html name %>'' ''t'')
     = Some (body_header ''t'' @ ''print(escape_html(name ))'' @ [nl] @ ''end'' @ [nl])
   \<and> fst (render_file 3 fs_tagged template_context ''t'' [''name'' \<mapsto> ''<b>''])
     = Inl (render_error (call_nil ''escape_html''))
   \<and> fst (render_file 3 fs_ambient template_context ''t'' [''name'' \<mapsto> ''<b>''])
     = Inl (render_error (call_nil ''escape_html''))
   \<and> set escape_helpers \<inter> set helper_names = {}
   \<and> map_option r_body (reader ''<%= html name %>'' ''t'')
     = Some (body_header ''t'' @ ''print(html name )'' @ [nl] @ ''end'' @ [nl])
   \<and> map_option r_body (reader ''<%=nonempty %>'' ''t'')
     = Some (body_header ''t'' @ ''print(mpty )'' @ [nl] @ ''end'' @ [nl])"
  by (simp add: fs_tagged_def fs_ambient_def rd_defs lua_defs rn_defs eval_nat_numeral)

subsection \<open>The scanner always returns\<close>

lemma cur_not_NUL: "cur p \<noteq> NUL \<Longrightarrow> p \<noteq> []"
  by (auto simp: cur_def)

lemma starts_length:
  assumes "starts lit p"
  shows "length lit \<le> length p"
proof -
  have "length (take (length lit) p) = length lit"
    using assms by (simp add: starts_def)
  then show ?thesis by simp
qed

lemma scan_quoted_length: "length (snd (scan_quoted n p)) \<le> length p"
  by (induction n p rule: scan_quoted.induct) (auto split: prod.splits)

lemma scan_bare_length: "length (snd (scan_bare n p)) \<le> length p"
  by (induction n p rule: scan_bare.induct) (auto split: prod.splits)

lemma dropWhile_length: "length (dropWhile P p) \<le> length p"
  by (induction p) auto

lemma scan_name_length: "length (snd (scan_name p)) \<le> length p"
proof -
  let ?q = "dropWhile isspace p"
  have "length (snd (scan_quoted 0 (tl ?q))) \<le> length ?q"
    using scan_quoted_length [of 0 "tl ?q"] by simp
  moreover have "length (snd (scan_bare 0 ?q)) \<le> length ?q"
    by (rule scan_bare_length)
  ultimately show ?thesis
    using dropWhile_length [of isspace p] by (simp add: scan_name_def Let_def)
qed

lemma skip_directive_length: "length (skip_directive p) \<le> length p"
  by (induction p) auto

lemma skip_directive_less: "cur p \<noteq> NUL \<Longrightarrow> length (skip_directive p) < length p"
  using skip_directive_length by (cases p) (auto simp: cur_def le_imp_less_Suc)

lemma step_code_length:
  "length (r_p (step_code r)) \<le> length (r_p r)"
  "cur (r_p r) \<noteq> NUL \<Longrightarrow> length (r_p (step_code r)) < length (r_p r)"
  "r_state (step_code r) = r_state r \<or> r_state (step_code r) = s_initial"
  by (auto simp: step_code_def buf_addchar_def dest: cur_not_NUL)

lemma step_expression_length:
  "cur (r_p r) \<noteq> NUL \<Longrightarrow> length (r_p (step_expression r)) < length (r_p r)"
  "r_state (step_expression r) = r_state r \<or> r_state (step_expression r) = s_initial"
  by (auto simp: step_expression_def buf_addchar_def dest: cur_not_NUL)

lemma mode_tag_length: "length (snd (mode_tag a p)) \<le> length p"
  by (simp add: mode_tag_def)

lemma open_print_fields [simp]:
  "r_p (open_print m r) = r_p r" "r_state (open_print m r) = r_state r"
  by (cases m; simp add: open_print_def)+

lemma open_format_fields:
  "length (r_p (open_format r)) \<le> length (r_p r)" "r_state (open_format r) = r_state r"
  by (simp_all add: open_format_def Let_def)

lemma open_expression_fields:
  "length (r_p (open_expression r)) \<le> length (r_p r)"
  "r_state (open_expression r) = s_expression"
proof -
  obtain m p' where mt: "mode_tag (r_escape r) (tl (r_p r)) = (m, p')"
    by (cases "mode_tag (r_escape r) (tl (r_p r))") auto
  have "length p' \<le> length (tl (r_p r))"
    using mode_tag_length [of "r_escape r" "tl (r_p r)"] mt by simp
  then have "length p' \<le> length (r_p r)" by simp
  then show "length (r_p (open_expression r)) \<le> length (r_p r)"
    using mt open_format_fields(1) [of "open_print m (r\<lparr>r_state := s_expression, r_p := p'\<rparr>)"]
    by (simp add: open_expression_def)
  show "r_state (open_expression r) = s_expression"
    using mt by (simp add: open_expression_def open_format_fields(2))
qed

lemma step_output_length:
  assumes "cur (r_p r) \<noteq> NUL" and "r_state r = s_output"
  shows "length (r_p (step_output r)) < length (r_p r)"
    and "loop_state (r_state (step_output r))"
proof -
  have "length (r_p (step_output r)) < length (r_p r) \<and> loop_state (r_state (step_output r))"
  proof (cases "starts ''<%'' (r_p r)")
    case False
    then show ?thesis
      using assms by (auto simp: step_output_def buf_addchar_def loop_state_def dest: cur_not_NUL)
  next
    case True
    define r2 where "r2 = (if r_output r
        then (buf_addstring (r_b r) ('']])'' @ [nl]) r)\<lparr>r_output := False\<rparr> else r)
        \<lparr>r_p := drop 2 (r_p r)\<rparr>"
    define ra where "ra = skip_space (open_expression r2)"
    define rb where "rb = skip_space (r2\<lparr>r_state := s_instruction, r_p := tl (r_p r2)\<rparr>)"
    define rc where "rc = step_code (skip_space (r2\<lparr>r_state := s_code\<rparr>))"
    have l2: "length (r_p r2) < length (r_p r)"
      using starts_length [OF True] by (simp add: r2_def)
    have a: "length (r_p ra) \<le> length (r_p r2)" "r_state ra = s_expression"
      using open_expression_fields [of r2] dropWhile_length [of isspace "r_p (open_expression r2)"]
      by (simp_all add: skip_space_def ra_def)
    have b: "length (r_p rb) \<le> length (r_p r2)" "r_state rb = s_instruction"
      using dropWhile_length [of isspace "tl (r_p r2)"] by (simp_all add: skip_space_def rb_def)
    have c: "length (r_p rc) \<le> length (r_p r2)" "r_state rc = s_code \<or> r_state rc = s_initial"
      using step_code_length(1,3) [of "skip_space (r2\<lparr>r_state := s_code\<rparr>)"]
        dropWhile_length [of isspace "r_p r2"] by (simp_all add: skip_space_def rc_def)
    have "step_output r =
        (if cur (r_p r2) = CHR ''='' then ra else if cur (r_p r2) = CHR ''!'' then rb else rc)"
      using True by (simp add: step_output_def r2_def ra_def rb_def rc_def Let_def)
    then show ?thesis
      using l2 a b c by (auto simp: loop_state_def)
  qed
  then show "length (r_p (step_output r)) < length (r_p r)"
    and "loop_state (r_state (step_output r))"
    by simp_all
qed

lemma step_initial_length:
  assumes "cur (r_p r) \<noteq> NUL"
  shows "length (r_p (step_initial r)) < length (r_p r)"
    and "loop_state (r_state (step_initial r))"
proof -
  let ?r = "(if \<not> starts ''<%'' (r_p r) \<and> (\<not> r_extends r \<or> (r_extends r \<and> r_block r))
        then (buf_addstring (r_b r) ''print([['' r)\<lparr>r_output := True\<rparr>
        else r)\<lparr>r_state := s_output\<rparr>"
  have p: "r_p ?r = r_p r" and s: "r_state ?r = s_output"
    by simp_all
  have i: "step_initial r = step_output ?r"
    by (simp add: step_initial_def)
  show "length (r_p (step_initial r)) < length (r_p r)"
    using step_output_length(1) [of ?r] assms p s unfolding i by simp
  show "loop_state (r_state (step_initial r))"
    using step_output_length(2) [of ?r] assms p s unfolding i by simp
qed

lemma instr_length:
  "starts ''include'' (r_p r) \<Longrightarrow> length (r_p (instr_include r)) < length (r_p r)"
  "starts ''escape'' (r_p r) \<Longrightarrow> length (r_p (instr_escape r)) < length (r_p r)"
  "starts ''block'' (r_p r) \<Longrightarrow> length (r_p (instr_block n r)) < length (r_p r)"
  "starts ''endblock'' (r_p r) \<Longrightarrow> length (r_p (instr_endblock r)) < length (r_p r)"
  "starts ''extends'' (r_p r) \<Longrightarrow> length (r_p (instr_extends n r)) < length (r_p r)"
proof -
  show "starts ''include'' (r_p r) \<Longrightarrow> length (r_p (instr_include r)) < length (r_p r)"
    using scan_name_length [of "drop 7 (r_p r)"]
    by (auto simp: instr_include_def split: prod.splits dest!: starts_length)
  show "starts ''escape'' (r_p r) \<Longrightarrow> length (r_p (instr_escape r)) < length (r_p r)"
    using dropWhile_length [of isspace "drop 6 (r_p r)"]
    by (auto simp: instr_escape_def Let_def dest!: starts_length)
  show "starts ''block'' (r_p r) \<Longrightarrow> length (r_p (instr_block n r)) < length (r_p r)"
    using scan_name_length [of "drop 5 (r_p r)"]
    by (auto simp: instr_block_def Let_def split: prod.splits dest!: starts_length)
  show "starts ''endblock'' (r_p r) \<Longrightarrow> length (r_p (instr_endblock r)) < length (r_p r)"
    by (auto simp: instr_endblock_def Let_def dest!: starts_length)
  show "starts ''extends'' (r_p r) \<Longrightarrow> length (r_p (instr_extends n r)) < length (r_p r)"
    using scan_name_length [of "drop 7 (r_p r)"]
    by (auto simp: instr_extends_def Let_def split: prod.splits dest!: starts_length)
qed

lemma step_instruction_length:
  assumes "cur (r_p r) \<noteq> NUL"
  shows "length (r_p (step_instruction n r)) < length (r_p r)"
    and "r_state (step_instruction n r) = s_initial"
proof -
  define r1 where "r1 = (if starts ''include'' (r_p r) then instr_include r
               else if starts ''escape'' (r_p r) then instr_escape r
               else if starts ''block'' (r_p r) then instr_block n r
               else if starts ''endblock'' (r_p r) then instr_endblock r
               else if starts ''extends'' (r_p r) then instr_extends n r
               else r)"
  have s: "step_instruction n r = r1\<lparr>r_p := skip_directive (r_p r1), r_state := s_initial\<rparr>"
    by (simp add: step_instruction_def r1_def Let_def)
  have "r1 = r \<or> length (r_p r1) < length (r_p r)"
    using instr_length [of r] by (auto simp: r1_def)
  then have "length (skip_directive (r_p r1)) < length (r_p r)"
    using skip_directive_less [OF assms] skip_directive_length [of "r_p r1"] by auto
  then show "length (r_p (step_instruction n r)) < length (r_p r)"
    by (simp add: s)
  show "r_state (step_instruction n r) = s_initial"
    by (simp add: s)
qed

lemma reader_step_length:
  assumes "cur (r_p r) \<noteq> NUL" and "loop_state (r_state r)"
  shows "length (r_p (reader_step n r)) < length (r_p r)"
    and "loop_state (r_state (reader_step n r))"
  using assms step_initial_length [of r] step_output_length [of r] step_code_length [of r]
    step_expression_length [of r] step_instruction_length [of r n]
  by (auto simp: reader_step_def loop_state_def)

lemma reader_loop_total:
  "loop_state (r_state r) \<Longrightarrow> \<exists>y. reader_loop n r = Some y"
proof (induction "length (r_p r)" arbitrary: r rule: less_induct)
  case less
  show ?case
  proof (cases "cur (r_p r) = NUL")
    case True
    then show ?thesis by (subst reader_loop.simps) simp
  next
    case False
    have "\<exists>y. reader_loop n (reader_step n r) = Some y"
      using less.hyps [of "reader_step n r"] reader_step_length [OF False less.prems] by simp
    then show ?thesis
      using reader_loop_step [OF False, of n] by simp
  qed
qed

lemma reader_total: "\<exists>r. reader p n = Some r"
  using reader_loop_total [of "reader_init p n" n]
  by (auto simp: reader_def reader_init_def loop_state_def)

subsection \<open>The dependency walk\<close>

lemma process_file_never_loops:
  "fst (process_file n fs fnam st) \<noteq> Some loops_forever"
  and process_includes_never_loops:
  "fst (process_includes n fs incs st) \<noteq> Some loops_forever"
proof (induction n fs fnam st and n fs incs st rule: process_file_process_includes.induct)
  case (1 fs fnam st)
  then show ?case by simp
next
  case (2 n fs fnam st)
  show ?case
  proof (cases "resolve fs fnam")
    case None
    then show ?thesis by simp
  next
    case (Some f)
    obtain r where r: "reader (content f) fnam = Some r"
      using reader_total by blast
    show ?thesis
    proof (cases "content f = []")
      case True
      then show ?thesis using Some by simp
    next
      case ne: False
      show ?thesis
      proof (cases "scan_defined f r")
        case False
        then show ?thesis using Some ne r by auto
      next
        case sd: True
        show ?thesis
        proof (cases "load_and_run fnam (r_body r) (fst st)")
        case None
        then show ?thesis using Some ne r sd by simp
      next
        case l1: (Some reg1)
        show ?thesis
        proof (cases "load_and_run fnam (r_blocks r) reg1")
          case None
          then show ?thesis using Some ne r sd l1 by simp
        next
          case l2: (Some reg2)
          have "fst (process_includes n fs (r_includes r) (reg2, fnam # snd st))
              \<noteq> Some loops_forever"
            using 2 [OF Some ne r sd l1 l2] .
          then show ?thesis
            using Some ne r sd l1 l2 by (auto split: prod.splits option.splits)
        qed
      qed
    qed
  qed
  qed
next
  case (3 n fs st)
  then show ?case by simp
next
  case (4 n fs inc incs st)
  show ?case
  proof (cases "inc \<in> set (snd st)")
    case True
    then show ?thesis by simp
  next
    case nin: False
    show ?thesis
    proof (cases "fst st inc = None")
      case reg: False
      then show ?thesis
        using 4(3) [OF nin reg] nin by (simp del: not_None_eq)
    next
      case True
      obtain res st1 where pf: "process_file n fs inc st = (res, st1)"
        by (cases "process_file n fs inc st") auto
      show ?thesis
      proof (cases res)
        case None
        then have pf': "process_file n fs inc st = (None, st1)"
          using pf by simp
        show ?thesis
          using 4(2) [OF nin True pf' [symmetric] refl] pf' nin True by simp
      next
        case (Some e)
        then show ?thesis
          using 4(1) [OF nin True] pf nin True by simp
      qed
    qed
  qed
qed

lemma finite_templates:
  assumes "finite (dom fs)"
  shows "finite (templates fs)"
proof -
  have "inj (\<lambda>n. ''custom/'' @ n)"
    by (simp add: inj_on_def)
  then have "finite ((\<lambda>n. ''custom/'' @ n) -` dom fs)"
    using assms by (simp add: finite_vimageI)
  moreover have "templates fs \<subseteq> dom fs \<union> (\<lambda>n. ''custom/'' @ n) -` dom fs"
    by (auto simp: templates_def resolve_def split: option.splits)
  ultimately show ?thesis
    using assms by (meson finite_UnI finite_subset)
qed

lemma card_pending:
  assumes "finite T" and "y \<in> T" and "y \<notin> set ih"
  shows "card (T - set (y # ih)) + 1 = card (T - set ih)"
proof -
  have "T - set (y # ih) = (T - set ih) - {y}" by auto
  moreover have "y \<in> T - set ih" using assms by simp
  moreover have "finite (T - set ih)" using assms by simp
  ultimately show ?thesis
    by (metis Suc_eq_plus1 card_Suc_Diff1)
qed

lemma process_file_fuel:
  "finite (templates fs) \<Longrightarrow> 0 < n
     \<Longrightarrow> (resolve fs fnam \<noteq> None \<longrightarrow> card (templates fs - set (fnam # snd st)) + 1 < n)
     \<Longrightarrow> fst (process_file n fs fnam st) \<noteq> Some out_of_fuel"
  and process_includes_fuel:
  "finite (templates fs) \<Longrightarrow> card (templates fs - set (snd st)) < n
     \<Longrightarrow> fst (process_includes n fs incs st) \<noteq> Some out_of_fuel"
proof (induction n fs fnam st and n fs incs st rule: process_file_process_includes.induct)
  case (1 fs fnam st)
  then show ?case by simp
next
  case (2 n fs fnam st)
  show ?case
  proof (cases "resolve fs fnam")
    case None
    then show ?thesis by simp
  next
    case (Some f)
    obtain r where r: "reader (content f) fnam = Some r"
      using reader_total by blast
    have c: "card (templates fs - set (snd (reg2, fnam # snd st))) < n" for reg2 :: registry
      using 2(4) Some by simp
    show ?thesis
    proof (cases "content f = []")
      case True
      then show ?thesis using Some by simp
    next
      case ne: False
      show ?thesis
      proof (cases "scan_defined f r")
        case False
        then show ?thesis using Some ne r by auto
      next
        case sd: True
        show ?thesis
        proof (cases "load_and_run fnam (r_body r) (fst st)")
        case None
        then show ?thesis using Some ne r sd by simp
      next
        case l1: (Some reg1)
        show ?thesis
        proof (cases "load_and_run fnam (r_blocks r) reg1")
          case None
          then show ?thesis using Some ne r sd l1 by simp
        next
          case l2: (Some reg2)
          have "fst (process_includes n fs (r_includes r) (reg2, fnam # snd st))
              \<noteq> Some out_of_fuel"
            using 2(1) [OF Some ne r sd l1 l2 2(2) c] .
          then show ?thesis
            using Some ne r sd l1 l2 by (auto split: prod.splits option.splits)
        qed
      qed
    qed
  qed
  qed
next
  case (3 n fs st)
  then show ?case by simp
next
  case (4 n fs inc incs st)
  show ?case
  proof (cases "inc \<in> set (snd st)")
    case True
    then show ?thesis by simp
  next
    case nin: False
    show ?thesis
    proof (cases "fst st inc = None")
      case reg: False
      then show ?thesis
        using 4(3) [OF nin reg 4(4,5)] nin by (simp del: not_None_eq)
    next
      case True
      have pos: "0 < n" using 4(5) by simp
      have b: "resolve fs inc \<noteq> None \<longrightarrow> card (templates fs - set (inc # snd st)) + 1 < n"
        using card_pending [OF 4(4), of inc "snd st"] nin 4(5) by (simp add: templates_def)
      obtain res st1 where pf: "process_file n fs inc st = (res, st1)"
        by (cases "process_file n fs inc st") auto
      show ?thesis
      proof (cases res)
        case None
        then have pf': "process_file n fs inc st = (None, st1)"
          using pf by simp
        have "snd st1 = snd st"
          using process_file_ihead pf' by blast
        then have "card (templates fs - set (snd st1)) < n"
          using 4(5) by simp
        then show ?thesis
          using 4(2) [OF nin True pf' [symmetric] refl 4(4)] pf' nin True by simp
      next
        case (Some e)
        then show ?thesis
          using 4(1) [OF nin True 4(4) pos b] pf nin True by simp
      qed
    qed
  qed
qed

lemma process_file_success:
  assumes "process_file n fs y st = (None, st')"
  obtains k f r reg1 reg2 st2 where "n = Suc k" and "resolve fs y = Some f"
    and "reader (content f) y = Some r"
    and "load_and_run y (r_body r) (fst st) = Some reg1"
    and "load_and_run y (r_blocks r) reg1 = Some reg2"
    and "process_includes k fs (r_includes r) (reg2, y # snd st) = (None, st2)"
    and "st' = (fst st2, tl (snd st2))"
proof (cases n)
  case 0
  then show ?thesis using assms by simp
next
  case (Suc k)
  then show ?thesis
    using assms that by (auto split: option.splits if_splits prod.splits)
qed

lemma deps_eq:
  "resolve fs y = Some f \<Longrightarrow> reader (content f) y = Some r \<Longrightarrow> deps fs y = r_includes r"
  by (simp add: deps_def)

lemma deps_done_push:
  assumes inv: "deps_done fs reg0 S0 reg ih"
    and y: "reg2 y \<noteq> None" and fr: "\<And>d. d \<noteq> y \<Longrightarrow> reg2 d = reg d"
  shows "deps_done fs reg0 S0 reg2 (y # ih)"
  unfolding deps_done_def
proof (intro allI impI ballI)
  fix n d
  assume n: "reg2 n \<noteq> None" "reg0 n = None" "n \<notin> set (y # ih)" and d: "d \<in> set (deps fs n)"
  have "reg n \<noteq> None" "n \<notin> set ih"
    using n fr [of n] by auto
  then have "reg d \<noteq> None \<and> d \<notin> S0"
    using inv n(2) d unfolding deps_done_def by blast
  then show "reg2 d \<noteq> None \<and> d \<notin> S0"
    using y fr [of d] by (cases "d = y") auto
qed

lemma deps_done_pop:
  assumes inv: "deps_done fs reg0 S0 reg (y # ih)"
    and ds: "\<forall>d \<in> set (deps fs y). reg d \<noteq> None \<and> d \<notin> set (y # ih)"
    and sub: "S0 \<subseteq> set ih"
  shows "deps_done fs reg0 S0 reg ih"
  unfolding deps_done_def
proof (intro allI impI ballI)
  fix n d
  assume n: "reg n \<noteq> None" "reg0 n = None" "n \<notin> set ih" and d: "d \<in> set (deps fs n)"
  show "reg d \<noteq> None \<and> d \<notin> S0"
  proof (cases "n = y")
    case True
    then show ?thesis using ds d sub by auto
  next
    case False
    then have "n \<notin> set (y # ih)" using n(3) by simp
    then show ?thesis
      using inv n(1,2) d unfolding deps_done_def by blast
  qed
qed

lemma process_file_deps_done:
  "process_file n fs y st = (None, st') \<Longrightarrow> S0 \<subseteq> set (snd st)
     \<Longrightarrow> deps_done fs reg0 S0 (fst st) (snd st)
     \<Longrightarrow> deps_done fs reg0 S0 (fst st') (snd st) \<and> fst st' y \<noteq> None"
  and process_includes_deps_done:
  "process_includes n fs incs st = (None, st') \<Longrightarrow> S0 \<subseteq> set (snd st)
     \<Longrightarrow> deps_done fs reg0 S0 (fst st) (snd st)
     \<Longrightarrow> deps_done fs reg0 S0 (fst st') (snd st)
         \<and> (\<forall>d \<in> set incs. fst st' d \<noteq> None \<and> d \<notin> set (snd st))"
proof (induction n fs y st and n fs incs st arbitrary: st' and st'
    rule: process_file_process_includes.induct)
  case (1 fs fnam st)
  then show ?case by simp
next
  case (2 n fs fnam st)
  from 2(2) obtain f r reg1 reg2 st2 where
    h: "resolve fs fnam = Some f" "content f \<noteq> []" "reader (content f) fnam = Some r"
      "load_and_run fnam (r_body r) (fst st) = Some reg1"
      "load_and_run fnam (r_blocks r) reg1 = Some reg2"
      "process_includes n fs (r_includes r) (reg2, fnam # snd st) = (None, st2)"
      "st' = (fst st2, tl (snd st2))"
    and sd: "scan_defined f r"
    by (auto split: option.splits if_splits prod.splits)
  have y2: "reg2 fnam \<noteq> None" and fr: "\<And>d. d \<noteq> fnam \<Longrightarrow> reg2 d = fst st d"
    using compile_one(4,6) [OF h(3,4,5)] by blast+
  have inv2: "deps_done fs reg0 S0 (fst (reg2, fnam # snd st)) (snd (reg2, fnam # snd st))"
    using deps_done_push [OF 2(4) y2 fr] by simp
  have sub2: "S0 \<subseteq> set (snd (reg2, fnam # snd st))"
    using 2(3) by auto
  have ih: "deps_done fs reg0 S0 (fst st2) (fnam # snd st)"
    "\<forall>d \<in> set (r_includes r). fst st2 d \<noteq> None \<and> d \<notin> set (fnam # snd st)"
    using 2(1) [OF h(1-3) sd h(4-6) sub2 inv2] by simp_all
  have "deps_done fs reg0 S0 (fst st2) (snd st)"
    using deps_done_pop [OF ih(1) _ 2(3)] ih(2) deps_eq [OF h(1,3)] by simp
  moreover have "fst st2 fnam = reg2 fnam"
    using process_includes_cached_unchanged [OF h(6), of fnam] y2 by simp
  ultimately show ?case
    using h(7) y2 by simp
next
  case (3 n fs st)
  then show ?case by simp
next
  case (4 n fs inc incs st)
  have nin: "inc \<notin> set (snd st)"
    using 4(4) by (auto split: if_splits)
  show ?case
  proof (cases "fst st inc = None")
    case reg: False
    have pi: "process_includes n fs incs st = (None, st')"
      using 4(4) nin reg by (simp del: not_None_eq)
    have "fst st' inc = fst st inc"
      using process_includes_cached_unchanged [OF pi reg] .
    then show ?thesis
      using 4(3) [OF nin reg pi 4(5,6)] nin reg by simp
  next
    case True
    obtain st1 where pf: "process_file n fs inc st = (None, st1)"
      and pi: "process_includes n fs incs st1 = (None, st')"
      using 4(4) nin True by (auto split: option.splits prod.splits)
    have s1: "snd st1 = snd st"
      using process_file_ihead pf by blast
    have a: "deps_done fs reg0 S0 (fst st1) (snd st)" "fst st1 inc \<noteq> None"
      using 4(1) [OF nin True pf 4(5,6)] by simp_all
    have b: "deps_done fs reg0 S0 (fst st') (snd st1)
        \<and> (\<forall>d \<in> set incs. fst st' d \<noteq> None \<and> d \<notin> set (snd st1))"
      using 4(2) [OF nin True pf [symmetric] refl pi] 4(5) a(1) s1 by simp
    have "fst st' inc = fst st1 inc"
      using process_includes_cached_unchanged [OF pi a(2)] .
    then show ?thesis
      using a(2) b s1 nin by simp
  qed
qed

lemma cycle_never_compiles:
  assumes cyc: "(x, x) \<in> (depends fs)\<^sup>+"
    and unc: "\<And>b. b \<noteq> x \<Longrightarrow> (x, b) \<in> (depends fs)\<^sup>+ \<Longrightarrow> (b, x) \<in> (depends fs)\<^sup>+
                \<Longrightarrow> fst st b = None"
  shows "fst (process_file n fs x st) \<noteq> None"
proof
  assume "fst (process_file n fs x st) = None"
  then obtain st' where pf: "process_file n fs x st = (None, st')"
    by (cases "process_file n fs x st") auto
  from pf obtain k f r reg1 reg2 st2 where
    h: "resolve fs x = Some f" "reader (content f) x = Some r"
      "load_and_run x (r_body r) (fst st) = Some reg1"
      "load_and_run x (r_blocks r) reg1 = Some reg2"
      "process_includes k fs (r_includes r) (reg2, x # snd st) = (None, st2)"
    by (rule process_file_success)
  define S0 where "S0 = set (x # snd st)"
  have fr: "\<And>d. d \<noteq> x \<Longrightarrow> reg2 d = fst st d"
    using compile_one(6) [OF h(2,3,4)] by blast
  have inv2: "deps_done fs (fst st) S0 (fst (reg2, x # snd st)) (snd (reg2, x # snd st))"
    unfolding deps_done_def using fr by auto
  have sub: "S0 \<subseteq> set (snd (reg2, x # snd st))"
    by (simp add: S0_def)
  have fin: "deps_done fs (fst st) S0 (fst st2) (x # snd st)"
    and ds: "\<forall>d \<in> set (deps fs x). fst st2 d \<noteq> None \<and> d \<notin> S0"
    using process_includes_deps_done [OF h(5) sub inv2] deps_eq [OF h(1,2)]
    by (simp_all add: S0_def)
  have "(b, x) \<in> (depends fs)\<^sup>* \<longrightarrow> fst st2 b \<noteq> None \<and> b \<notin> S0"
    if "(x, b) \<in> (depends fs)\<^sup>+" for b
    using that
  proof (induction rule: trancl_induct)
    case (base y)
    then show ?case using ds by (simp add: depends_def)
  next
    case (step y z)
    show ?case
    proof
      assume zx: "(z, x) \<in> (depends fs)\<^sup>*"
      have yx: "(y, x) \<in> (depends fs)\<^sup>+"
        using step(2) zx by (rule rtrancl_into_trancl2)
      then have y: "fst st2 y \<noteq> None" "y \<notin> S0"
        using step(3) by (simp_all add: trancl_into_rtrancl)
      have "y \<noteq> x" using y(2) by (auto simp: S0_def)
      then have "fst st y = None"
        using unc step(1) yx by blast
      moreover have "y \<notin> set (x # snd st)"
        using y(2) by (simp add: S0_def)
      moreover have "z \<in> set (deps fs y)"
        using step(2) by (simp add: depends_def)
      ultimately show "fst st2 z \<noteq> None \<and> z \<notin> S0"
        using fin y(1) unfolding deps_done_def by blast
    qed
  qed
  then have "x \<notin> S0"
    using cyc by blast
  then show False
    by (simp add: S0_def)
qed

lemma recursion_names_active:
  "process_file n fs fnam st = (Some (recursion_detected p), st') \<Longrightarrow> p \<in> set (snd st')"
  and recursion_names_active_includes:
  "process_includes n fs incs st = (Some (recursion_detected p), st') \<Longrightarrow> p \<in> set (snd st')"
proof (induction n fs fnam st and n fs incs st arbitrary: st' and st'
    rule: process_file_process_includes.induct)
  case (1 fs fnam st)
  then show ?case by simp
next
  case (2 n fs fnam st)
  from 2(2) obtain f r reg1 reg2 where
    h: "resolve fs fnam = Some f" "content f \<noteq> []" "reader (content f) fnam = Some r"
      "scan_defined f r"
      "load_and_run fnam (r_body r) (fst st) = Some reg1"
      "load_and_run fnam (r_blocks r) reg1 = Some reg2"
      "process_includes n fs (r_includes r) (reg2, fnam # snd st)
         = (Some (recursion_detected p), st')"
    by (auto split: option.splits if_splits prod.splits)
  show ?case
    using 2(1) [OF h] .
next
  case (3 n fs st)
  then show ?case by simp
next
  case (4 n fs inc incs st)
  show ?case
  proof (cases "inc \<in> set (snd st)")
    case True
    then show ?thesis using 4(4) by simp
  next
    case nin: False
    show ?thesis
    proof (cases "fst st inc = None")
      case reg: False
      have "process_includes n fs incs st = (Some (recursion_detected p), st')"
        using 4(4) nin reg by (simp del: not_None_eq)
      then show ?thesis
        using 4(3) [OF nin reg] by simp
    next
      case True
      obtain res st1 where pf: "process_file n fs inc st = (res, st1)"
        by (cases "process_file n fs inc st") auto
      show ?thesis
      proof (cases res)
        case None
        then have pf': "process_file n fs inc st = (None, st1)"
          using pf by simp
        show ?thesis
          using 4(2) [OF nin True pf' [symmetric] refl] 4(4) pf' nin True by simp
      next
        case (Some e)
        then have "process_file n fs inc st = (Some (recursion_detected p), st')"
          using 4(4) pf nin True by simp
        then show ?thesis
          using 4(1) [OF nin True] by simp
      qed
    qed
  qed
qed

text \<open>
  The dependency walk of a compile always returns in the model: the scanner returns on
  every text, and the walk needs no more nested calls of \<^verbatim>\<open>process_file\<close> than there
  are templates, plus one for a call that fails to open its file. A compile of a
  template that lies on a cycle of the include and extends graph, in a context where no
  other template of a cycle through it is registered, does not end with the value 0
  (a compile that leaves the modelled fragment ends the model, and is not a success
  either); when the error it ends with is the recursion error, the path that error names
  is on the stack of active names.
\<close>

lemma walk_returns_and_rejects_uncached_cycles:
  assumes "finite (dom fs)" and "card (templates fs) < n"
  shows "fst (process_file n fs x st) \<noteq> Some out_of_fuel
    \<and> fst (process_file n fs x st) \<noteq> Some loops_forever
    \<and> ((x, x) \<in> (depends fs)\<^sup>+ \<longrightarrow>
         (\<forall>b. b \<noteq> x \<longrightarrow> (x, b) \<in> (depends fs)\<^sup>+ \<longrightarrow> (b, x) \<in> (depends fs)\<^sup>+
              \<longrightarrow> fst st b = None) \<longrightarrow>
         fst (process_file n fs x st) \<noteq> None)
    \<and> (\<forall>p. fst (process_file n fs x st) = Some (recursion_detected p) \<longrightarrow>
           p \<in> set (snd (snd (process_file n fs x st))))"
proof -
  have fin: "finite (templates fs)"
    using assms(1) by (rule finite_templates)
  have pos: "0 < n"
    using assms(2) by simp
  have "card (templates fs - set (x # snd st)) + 1 < n" if "resolve fs x \<noteq> None"
  proof -
    have x: "x \<in> templates fs"
      using that by (simp add: templates_def)
    have "card (templates fs - set (x # snd st)) \<le> card (templates fs - {x})"
      using fin by (intro card_mono) auto
    moreover have "card (templates fs - {x}) + 1 = card (templates fs)"
      using fin x by (metis Suc_eq_plus1 card_Suc_Diff1)
    ultimately show ?thesis
      using assms(2) by simp
  qed
  then have 1: "fst (process_file n fs x st) \<noteq> Some out_of_fuel"
    using process_file_fuel [OF fin pos] by blast
  have 2: "fst (process_file n fs x st) \<noteq> Some loops_forever"
    by (rule process_file_never_loops)
  have 3: "fst (process_file n fs x st) \<noteq> None"
    if "(x, x) \<in> (depends fs)\<^sup>+"
      and "\<forall>b. b \<noteq> x \<longrightarrow> (x, b) \<in> (depends fs)\<^sup>+ \<longrightarrow> (b, x) \<in> (depends fs)\<^sup>+
             \<longrightarrow> fst st b = None"
    using that cycle_never_compiles [of x fs st n] by blast
  have 4: "p \<in> set (snd (snd (process_file n fs x st)))"
    if "fst (process_file n fs x st) = Some (recursion_detected p)" for p
    using that recursion_names_active [of n fs x st p "snd (process_file n fs x st)"]
    by (cases "process_file n fs x st") auto
  show ?thesis
    using 1 2 3 4 by blast
qed

subsection \<open>A cycle through cached templates\<close>

lemma mutual_render_never_ends:
  assumes "template_main reg a = Inr [RenderTemplate b]"
    and "template_main reg b = Inr [RenderTemplate a]"
  shows "exec_stmts k reg env t [RenderTemplate a] out = Inl out_of_fuel
       \<and> exec_stmts k reg env t [RenderTemplate b] out = Inl out_of_fuel"
proof (induction k arbitrary: t out)
  case 0
  show ?case using assms by simp
next
  case (Suc k)
  show ?case using assms Suc by simp
qed

lemma render_b_first:
  "render_file 3 fs_acyclic template_context ''B'' Map.empty
     = (Inr ''old'', \<lparr>ihead = [], debug = False, uservalue = Some reg_b\<rparr>)"
  by (simp add: fs_acyclic_def reg_b_def rd_defs lua_defs rn_defs eval_nat_numeral)

lemma render_a_second:
  "render_file 3 fs_acyclic \<lparr>ihead = [], debug = False, uservalue = Some reg_b\<rparr> ''A'' Map.empty
     = (Inr ''old'', \<lparr>ihead = [], debug = False, uservalue = Some reg_ab\<rparr>)"
  by (simp add: fs_acyclic_def reg_b_def reg_ab_def rd_defs lua_defs rn_defs eval_nat_numeral)

lemma prepare_b_changed:
  "render_file_prepare (Suc fuel) fs_cyclic
       \<lparr>ihead = [], debug = False, uservalue = Some reg_ab\<rparr> ''B''
     = (None, \<lparr>ihead = [], debug = False, uservalue = Some reg_cycle\<rparr>)"
  by (simp add: fs_cyclic_def reg_b_def reg_ab_def reg_cycle_def rd_defs lua_defs
      render_file_prepare_def check_mtime_def resolve_def)

lemma render_cycle_never_ends:
  "render_template k reg_cycle env ''B'' out = Inl out_of_fuel"
proof -
  have "template_main reg_cycle ''B'' = Inr [RenderTemplate ''A'']"
    "template_main reg_cycle ''A'' = Inr [RenderTemplate ''B'']"
    by (simp_all add: reg_cycle_def reg_ab_def reg_b_def template_main_def root_walk.simps)
  then show ?thesis
    using mutual_render_never_ends [of reg_cycle "''B''" "''A''" k env None out]
    by (simp add: render_template_def)
qed

lemma deps_cyclic: "deps fs_cyclic ''A'' = [''B'']" "deps fs_cyclic ''B'' = [''A'']"
  by (simp_all add: deps_def fs_cyclic_def resolve_def rd_defs)

text \<open>
  Claim C2 does not hold of the code. The files of \<^verbatim>\<open>A\<close> and \<^verbatim>\<open>B\<close> include each other,
  and the context holds entries of both from the time when \<^verbatim>\<open>B\<close> was plain text. The
  compile of \<^verbatim>\<open>B\<close> finds \<^verbatim>\<open>A\<close> registered and does not look at it again: it ends without
  an error, whatever the bound on the depth. The render that follows calls the main
  routines of \<^verbatim>\<open>B\<close> and \<^verbatim>\<open>A\<close> in turn and exceeds every bound on the depth of the
  calls. In a new context the same files give the recursion error.
\<close>

theorem cached_cycle_is_not_detected:
  "render_file 3 fs_acyclic template_context ''B'' Map.empty
     = (Inr ''old'', \<lparr>ihead = [], debug = False, uservalue = Some reg_b\<rparr>)
   \<and> render_file 3 fs_acyclic \<lparr>ihead = [], debug = False, uservalue = Some reg_b\<rparr>
        ''A'' Map.empty
     = (Inr ''old'', \<lparr>ihead = [], debug = False, uservalue = Some reg_ab\<rparr>)
   \<and> deps fs_cyclic ''A'' = [''B''] \<and> deps fs_cyclic ''B'' = [''A'']
   \<and> (\<forall>fuel. render_file_prepare (Suc fuel) fs_cyclic
                 \<lparr>ihead = [], debug = False, uservalue = Some reg_ab\<rparr> ''B''
               = (None, \<lparr>ihead = [], debug = False, uservalue = Some reg_cycle\<rparr>))
   \<and> (\<forall>fuel. fst (render_file (Suc fuel) fs_cyclic
                      \<lparr>ihead = [], debug = False, uservalue = Some reg_ab\<rparr> ''B'' Map.empty)
               = Inl (render_error out_of_fuel))
   \<and> fst (render_file 3 fs_cyclic template_context ''B'' Map.empty)
     = Inl (processing_failed (recursion_detected ''B''))"
proof -
  have "fst (render_file (Suc fuel) fs_cyclic
               \<lparr>ihead = [], debug = False, uservalue = Some reg_ab\<rparr> ''B'' Map.empty)
        = Inl (render_error out_of_fuel)" for fuel
    by (simp add: render_file_def prepare_b_changed render_cycle_never_ends)
  moreover have "fst (render_file 3 fs_cyclic template_context ''B'' Map.empty)
     = Inl (processing_failed (recursion_detected ''B''))"
    by (simp add: fs_cyclic_def rd_defs lua_defs rn_defs eval_nat_numeral)
  ultimately show ?thesis
    using render_b_first render_a_second deps_cyclic prepare_b_changed by simp
qed

end
